theory Spec2Isabelle
  imports Main "HOL-Library.Word"
begin

unbundle bit_operations_syntax

section \<open>Protocol constants (protocol.h)\<close>

type_synonym byte = "8 word"

abbreviation BUF_SIZE :: nat where "BUF_SIZE \<equiv> 1024"
abbreviation MAX_USERNAME_LEN :: nat where "MAX_USERNAME_LEN \<equiv> 32"

abbreviation (input) MSG_TYPE_CHAT :: byte where "MSG_TYPE_CHAT \<equiv> 0"
abbreviation (input) MSG_TYPE_DISCONNECT :: byte where "MSG_TYPE_DISCONNECT \<equiv> 1"
abbreviation (input) MSG_TYPE_JOIN :: byte where "MSG_TYPE_JOIN \<equiv> 2"
abbreviation (input) MSG_TYPE_USERNAME :: byte where "MSG_TYPE_USERNAME \<equiv> 3"

text \<open>The frame terminator, the character \<^verbatim>\<open>'\n'\<close>.\<close>

abbreviation (input) NL :: byte where "NL \<equiv> 10"

section \<open>Server state (server.c)\<close>

text \<open>
  \<^verbatim>\<open>struct sockaddr_in\<close>: the two fields the server copies into frames. Both are kept
  in network byte order by the socket layer; the server never does arithmetic on them.
\<close>

record sockaddr_in =
  sin_addr :: "32 word"
  sin_port :: "16 word"

text \<open>
  \<^verbatim>\<open>client_t\<close>. The pair \<^verbatim>\<open>(buf, len)\<close> of the C struct is the list \<open>buf\<close> of the
  \<^verbatim>\<open>len\<close> bytes received and not yet consumed: the code never reads \<^verbatim>\<open>buf\<close> at or
  beyond \<^verbatim>\<open>len\<close>, so \<^verbatim>\<open>cli->len\<close> is \<open>len cli\<close>, \<^verbatim>\<open>cli->len = 0\<close> empties the list
  and \<^verbatim>\<open>cli->len += num_read\<close> appends the bytes read. \<open>username\<close> is the whole
  \<^verbatim>\<open>char username[MAX_USERNAME_LEN]\<close> array, read as a C string up to its first NUL.
\<close>

record client_t =
  fd :: int
  buf :: "byte list"
  addr :: sockaddr_in
  username :: "byte list"
  has_username :: bool

abbreviation len :: "client_t \<Rightarrow> nat" where
  "len cli \<equiv> length (buf cli)"

text \<open>
  What the server does to the outside world: \<^verbatim>\<open>send_exact(fd, msg, msg_len)\<close> and
  \<^verbatim>\<open>close(fd)\<close>, in the order of the calls.
\<close>

datatype event = Send int "byte list" | Close int

text \<open>
  The globals \<^verbatim>\<open>clients\<close> and \<^verbatim>\<open>max_clients\<close> (the array and its length, as
  \<^verbatim>\<open>main\<close> allocates them) and the trace of system calls made so far.
\<close>

record server =
  clients :: "client_t list"
  events :: "event list"

abbreviation max_clients :: "server \<Rightarrow> nat" where
  "max_clients s \<equiv> length (clients s)"

text \<open>
  The one place where the C code can write outside an array: \<^verbatim>\<open>process_message\<close>
  assembles the relayed chat frame in \<^verbatim>\<open>char broadcast_msg[BUF_SIZE + 8]\<close>. Writing
  past its end is undefined in C; the model returns this error instead.
\<close>

datatype error = RelayBufferOverrun

section \<open>C library functions\<close>

text \<open>\<^verbatim>\<open>memchr(s, c, n)\<close> on the \<open>n\<close> bytes of the list: the offset of the first \<open>c\<close>.\<close>

fun memchr :: "byte list \<Rightarrow> byte \<Rightarrow> nat option" where
  "memchr [] c = None"
| "memchr (b # bs) c = (if b = c then Some 0 else map_option Suc (memchr bs c))"

text \<open>A \<^verbatim>\<open>char\<close> array read as a C string: the bytes before its first NUL.\<close>

definition c_string :: "byte list \<Rightarrow> byte list" where
  "c_string s = takeWhile (\<lambda>b. b \<noteq> 0) s"

definition strlen :: "byte list \<Rightarrow> nat" where
  "strlen s = length (c_string s)"

text \<open>
  \<^verbatim>\<open>memcpy(msg + offset, &x, sizeof x)\<close> of an integer: its bytes as they lie in memory
  (least significant first, the byte order of the hosts the Makefile targets).
\<close>

definition u32_bytes :: "32 word \<Rightarrow> byte list" where
  "u32_bytes w = [ucast w, ucast (drop_bit 8 w), ucast (drop_bit 16 w), ucast (drop_bit 24 w)]"

definition u16_bytes :: "16 word \<Rightarrow> byte list" where
  "u16_bytes w = [ucast w, ucast (drop_bit 8 w)]"

section \<open>Frames built by the server\<close>

text \<open>
  The common part of the three frames the server sends:
  \<^verbatim>\<open>[type][ip:4][port:2][username_len][username]\<close>, with
  \<^verbatim>\<open>username_len = (uint8_t)strlen(username)\<close>.
\<close>

definition frame_header :: "byte \<Rightarrow> sockaddr_in \<Rightarrow> byte list \<Rightarrow> byte list" where
  "frame_header msg_type a uname =
     (let username_len = (of_nat (strlen uname) :: byte)
      in [msg_type] @ u32_bytes (sin_addr a) @ u16_bytes (sin_port a)
         @ [username_len] @ take (unat username_len) uname)"

definition join_msg :: "client_t \<Rightarrow> byte list" where
  "join_msg new_client = frame_header MSG_TYPE_JOIN (addr new_client) (username new_client) @ [NL]"

definition disconnect_msg :: "sockaddr_in \<Rightarrow> byte list \<Rightarrow> byte list" where
  "disconnect_msg addr_copy username_copy =
     frame_header MSG_TYPE_DISCONNECT addr_copy username_copy @ [NL]"

text \<open>
  The relayed chat frame: the header followed by \<^verbatim>\<open>content_len = msg_len - 1\<close> bytes from
  \<^verbatim>\<open>cli->buf + 1\<close>, that is the message and the terminator of the client's frame.
\<close>

definition chat_msg :: "client_t \<Rightarrow> nat \<Rightarrow> byte list" where
  "chat_msg cli msg_len =
     (let content_len = msg_len - 1
      in frame_header MSG_TYPE_CHAT (addr cli) (username cli)
         @ (if content_len > 0 then take content_len (drop 1 (buf cli)) else []))"

section \<open>Server operations\<close>

text \<open>
  \<^verbatim>\<open>broadcast_message\<close>: one \<^verbatim>\<open>send_exact\<close> per slot with a live descriptor, in slot
  order. A send that fails is only logged by the C code and changes nothing else, so the
  trace records the call.
\<close>

fun send_all :: "client_t list \<Rightarrow> byte list \<Rightarrow> event list" where
  "send_all [] msg = []"
| "send_all (c # cs) msg =
     (if fd c \<noteq> -1 \<and> fd c > 0 then Send (fd c) msg # send_all cs msg else send_all cs msg)"

definition broadcast_message :: "server \<Rightarrow> byte list \<Rightarrow> server" where
  "broadcast_message s msg =
     (if length msg \<le> 0 then s
      else s\<lparr>events := events s @ send_all (clients s) msg\<rparr>)"

definition broadcast_join :: "server \<Rightarrow> nat \<Rightarrow> server" where
  "broadcast_join s i = broadcast_message s (join_msg (clients s ! i))"

definition remove_client :: "server \<Rightarrow> nat \<Rightarrow> server" where
  "remove_client s i =
     (let cli = clients s ! i in
      if fd cli = -1 then s
      else
        let had_username = has_username cli;
            username_copy = username cli;
            addr_copy = addr cli;
            s1 = s\<lparr>clients := (clients s)[i := cli\<lparr>fd := -1, buf := [], has_username := False\<rparr>],
                   events := events s @ [Close (fd cli)]\<rparr>
        in if had_username then broadcast_message s1 (disconnect_msg addr_copy username_copy)
           else s1)"

text \<open>
  \<^verbatim>\<open>process_message(cli, msg_len)\<close>, with \<^verbatim>\<open>cli = &clients[i]\<close>. The registration copies
  \<^verbatim>\<open>username_len\<close> bytes into the username array and writes the NUL after them. The
  chat branch writes \<^verbatim>\<open>offset\<close> = 8 + \<^verbatim>\<open>username_len\<close> + \<^verbatim>\<open>content_len\<close> bytes into
  \<^verbatim>\<open>broadcast_msg\<close>, which has room for \<^verbatim>\<open>BUF_SIZE + 8\<close>.
\<close>

definition process_message :: "server \<Rightarrow> nat \<Rightarrow> nat \<Rightarrow> error + server" where
  "process_message s i msg_len =
     (let cli = clients s ! i;
          msg_type = buf cli ! 0
      in
      if msg_type = MSG_TYPE_USERNAME \<and> \<not> has_username cli then
        (if msg_len > 2 then
           (let username_len = unat (buf cli ! 1) in
            if username_len > 0 \<and> username_len < MAX_USERNAME_LEN \<and> msg_len \<ge> 2 + username_len
            then
              Inr (broadcast_join
                (s\<lparr>clients := (clients s)[i := cli\<lparr>
                     username := take username_len (drop 2 (buf cli)) @ [0]
                                 @ drop (username_len + 1) (username cli),
                     has_username := True\<rparr>]\<rparr>) i)
            else Inr s)
         else Inr s)
      else if msg_type = MSG_TYPE_CHAT \<and> has_username cli then
        (if length (chat_msg cli msg_len) > BUF_SIZE + 8 then Inl RelayBufferOverrun
         else Inr (broadcast_message s (chat_msg cli msg_len)))
      else if msg_type = MSG_TYPE_DISCONNECT then Inr (remove_client s i)
      else Inr s)"

text \<open>
  \<^verbatim>\<open>accept_client\<close>. The arguments after the state are what the system calls return:
  the descriptor from \<^verbatim>\<open>accept\<close> with the peer address, and the result of
  \<^verbatim>\<open>set_nonblocking\<close>.
\<close>

fun find_slot :: "client_t list \<Rightarrow> nat option" where
  "find_slot [] = None"
| "find_slot (c # cs) = (if fd c = -1 then Some 0 else map_option Suc (find_slot cs))"

definition accept_client :: "server \<Rightarrow> int \<Rightarrow> sockaddr_in \<Rightarrow> int \<Rightarrow> server" where
  "accept_client s client_fd remote_addr nonblocking =
     (if client_fd = -1 then s
      else if nonblocking = -1 then s\<lparr>events := events s @ [Close client_fd]\<rparr>
      else
        (case find_slot (clients s) of
           Some j \<Rightarrow>
             s\<lparr>clients := (clients s)[j := (clients s ! j)\<lparr>
                  fd := client_fd, buf := [], addr := remote_addr, has_username := False\<rparr>]\<rparr>
         | None \<Rightarrow> s\<lparr>events := events s @ [Close client_fd]\<rparr>))"

section \<open>Facts needed to define the read loop\<close>

lemma broadcast_message_clients [simp]: "clients (broadcast_message s msg) = clients s"
  by (simp add: broadcast_message_def)

lemma broadcast_join_clients [simp]: "clients (broadcast_join s i) = clients s"
  by (simp add: broadcast_join_def)

lemma remove_client_length [simp]: "length (clients (remove_client s i)) = length (clients s)"
  by (simp add: remove_client_def Let_def)

lemma remove_client_len_le:
  "i < length (clients s) \<Longrightarrow> len (clients (remove_client s i) ! i) \<le> len (clients s ! i)"
  by (simp add: remove_client_def Let_def)

lemma process_message_length:
  "process_message s i msg_len = Inr s1 \<Longrightarrow> length (clients s1) = length (clients s)"
  by (auto simp: process_message_def Let_def split: if_splits)

lemma process_message_len_le:
  "process_message s i msg_len = Inr s1 \<Longrightarrow> i < length (clients s) \<Longrightarrow>
   len (clients s1 ! i) \<le> len (clients s ! i)"
  by (auto simp: process_message_def Let_def remove_client_len_le split: if_splits)

lemma memchr_bound: "memchr bs c = Some k \<Longrightarrow> k < length bs"
  by (induction bs arbitrary: k) (auto split: if_splits)

section \<open>Reading from a client\<close>

text \<open>
  The loop of \<^verbatim>\<open>handle_client_data\<close>, run after the bytes read were appended. The first
  test is the pointer's validity, which \<^verbatim>\<open>main\<close> guarantees (\<^verbatim>\<open>i < max_clients\<close>).
\<close>

function process_buffer :: "server \<Rightarrow> nat \<Rightarrow> error + server" where
  "process_buffer s i =
     (if i \<ge> max_clients s then Inr s
      else
        let cli = clients s ! i in
        if fd cli = -1 then Inr s
        else
          (case memchr (buf cli) NL of
             None \<Rightarrow> if len cli = BUF_SIZE then Inr (remove_client s i) else Inr s
           | Some k \<Rightarrow>
               let msg_len = k + 1 in
               (case process_message s i msg_len of
                  Inl e \<Rightarrow> Inl e
                | Inr s1 \<Rightarrow>
                    let cli1 = clients s1 ! i in
                    if fd cli1 = -1 then Inr s1
                    else
                      let remaining = len cli1 - msg_len in
                      process_buffer
                        (s1\<lparr>clients := (clients s1)[i := cli1\<lparr>buf :=
                           (if remaining > 0 then take remaining (drop msg_len (buf cli1))
                            else [])\<rparr>]\<rparr>) i)))"
  by pat_completeness auto
termination
proof (relation "measure (\<lambda>(s, i). len (clients s ! i))", goal_cases)
  case 1
  show ?case by simp
next
  case (2 s i cli k msg_len s1 cli1 remaining)
  have "len (clients s1 ! i) \<le> len (clients s ! i)"
    using 2 by (intro process_message_len_le) auto
  moreover have "k < len (clients s ! i)"
    using 2 by (auto dest: memchr_bound)
  moreover have "i < length (clients s1)"
    using 2 by (auto dest: process_message_length)
  ultimately show ?case
    using 2 by (auto simp: Let_def)
qed

declare process_buffer.simps [simp del]

text \<open>
  The result of \<^verbatim>\<open>read(cli->fd, cli->buf + cli->len, BUF_SIZE - cli->len)\<close>: the bytes
  the socket has ready (\<^verbatim>\<open>read\<close> returns at most the count asked for; no bytes is the
  return value 0), or -1 with \<^verbatim>\<open>errno\<close> being \<^verbatim>\<open>EAGAIN\<close>/\<^verbatim>\<open>EWOULDBLOCK\<close> or not.
\<close>

datatype read_t = Data "byte list" | WouldBlock | ReadError

definition handle_client_data :: "server \<Rightarrow> nat \<Rightarrow> read_t \<Rightarrow> error + server" where
  "handle_client_data s i r =
     (let cli = clients s ! i in
      if fd cli = -1 then Inr s
      else
        (case r of
           Data avail \<Rightarrow>
             let chunk = take (BUF_SIZE - len cli) avail;
                 num_read = length chunk
             in if num_read > 0
                then process_buffer (s\<lparr>clients := (clients s)[i := cli\<lparr>buf := buf cli @ chunk\<rparr>]\<rparr>) i
                else Inr (remove_client s i)
         | WouldBlock \<Rightarrow> Inr s
         | ReadError \<Rightarrow> Inr (remove_client s i)))"

section \<open>The client (client.c)\<close>

text \<open>
  \<^verbatim>\<open>sender_thread\<close> opens with the registration frame
  \<^verbatim>\<open>[MSG_TYPE_USERNAME][username_len][username]\n\<close>.
\<close>

definition username_msg :: "byte list \<Rightarrow> byte list" where
  "username_msg uname =
     (let username_len = (of_nat (strlen uname) :: byte)
      in [MSG_TYPE_USERNAME, username_len] @ take (unat username_len) uname @ [NL])"

text \<open>
  What \<^verbatim>\<open>receiver_thread\<close> holds in its local variables when it logs a frame: the
  type, \<^verbatim>\<open>ip_net\<close>, \<^verbatim>\<open>port_net\<close>, the username bytes and, for a chat frame,
  the bytes of \<^verbatim>\<open>msg_buf\<close>.
\<close>

datatype frame =
    Chat "32 word" "16 word" "byte list" "byte list"
  | Join "32 word" "16 word" "byte list"
  | Disconnect "32 word" "16 word" "byte list"

text \<open>
  The socket is the list of bytes the connection still delivers. \<^verbatim>\<open>recv_exact\<close>
  returns a value \<^verbatim>\<open><= 0\<close> (here \<open>None\<close>) when it is asked for no byte or the
  connection ends before \<open>n\<close> bytes came; otherwise the bytes and the rest of the stream.
\<close>

definition recv_exact :: "byte list \<Rightarrow> nat \<Rightarrow> (byte list \<times> byte list) option" where
  "recv_exact sock n =
     (if n = 0 \<or> length sock < n then None else Some (take n sock, drop n sock))"

text \<open>Reading an integer back from the bytes received into it.\<close>

definition u32_of_bytes :: "byte list \<Rightarrow> 32 word" where
  "u32_of_bytes bs =
     ucast (bs ! 0) OR push_bit 8 (ucast (bs ! 1)) OR push_bit 16 (ucast (bs ! 2))
     OR push_bit 24 (ucast (bs ! 3))"

definition u16_of_bytes :: "byte list \<Rightarrow> 16 word" where
  "u16_of_bytes bs = ucast (bs ! 0) OR push_bit 8 (ucast (bs ! 1))"

text \<open>The string \<^verbatim>\<open>"unknown"\<close> the receiver substitutes for a username length out of range.\<close>

definition unknown :: "byte list" where
  "unknown = [117, 110, 107, 110, 111, 119, 110]"

text \<open>
  The fields every frame from the server starts with, after the type byte: the three
  branches of \<^verbatim>\<open>receiver_thread\<close> read them with the same statements.
\<close>

definition recv_sender ::
  "byte list \<Rightarrow> ((32 word \<times> 16 word \<times> byte list) \<times> byte list) option" where
  "recv_sender sock =
     (case recv_exact sock 4 of None \<Rightarrow> None | Some (ip_net, s1) \<Rightarrow>
      (case recv_exact s1 2 of None \<Rightarrow> None | Some (port_net, s2) \<Rightarrow>
       (case recv_exact s2 1 of None \<Rightarrow> None | Some (ul, s3) \<Rightarrow>
          let username_len = unat (ul ! 0) in
          if username_len > 0 \<and> username_len < MAX_USERNAME_LEN then
            (case recv_exact s3 username_len of None \<Rightarrow> None
             | Some (uname, s4) \<Rightarrow> Some ((u32_of_bytes ip_net, u16_of_bytes port_net, uname), s4))
          else Some ((u32_of_bytes ip_net, u16_of_bytes port_net, unknown), s3))))"

text \<open>
  The loop that reads a chat message byte by byte until the newline; \<^verbatim>\<open>msg_buf\<close>
  keeps at most \<^verbatim>\<open>sizeof(msg_buf) - 1\<close> bytes.
\<close>

fun recv_line :: "byte list \<Rightarrow> byte list \<Rightarrow> (byte list \<times> byte list) option" where
  "recv_line [] msg_buf = None"
| "recv_line (ch # sock) msg_buf =
     (if ch = NL then Some (msg_buf, sock)
      else recv_line sock (if length msg_buf < BUF_SIZE - 1 then msg_buf @ [ch] else msg_buf))"

text \<open>One round of the loop of \<^verbatim>\<open>receiver_thread\<close>: the frame logged and the stream left.\<close>

definition receiver_thread :: "byte list \<Rightarrow> (frame \<times> byte list) option" where
  "receiver_thread sock =
     (case recv_exact sock 1 of None \<Rightarrow> None | Some (t, s1) \<Rightarrow>
        let type = t ! 0 in
        if type = MSG_TYPE_CHAT then
          (case recv_sender s1 of None \<Rightarrow> None | Some ((ip_net, port_net, uname), s2) \<Rightarrow>
           (case recv_line s2 [] of None \<Rightarrow> None
            | Some (msg_buf, s3) \<Rightarrow> Some (Chat ip_net port_net uname msg_buf, s3)))
        else if type = MSG_TYPE_JOIN then
          (case recv_sender s1 of None \<Rightarrow> None | Some ((ip_net, port_net, uname), s2) \<Rightarrow>
           (case s2 of [] \<Rightarrow> None | newline # s3 \<Rightarrow> Some (Join ip_net port_net uname, s3)))
        else if type = MSG_TYPE_DISCONNECT then
          (case recv_sender s1 of None \<Rightarrow> None | Some ((ip_net, port_net, uname), s2) \<Rightarrow>
           (case s2 of [] \<Rightarrow> None | newline # s3 \<Rightarrow> Some (Disconnect ip_net port_net uname, s3)))
        else None)"

section \<open>Vocabulary of the properties\<close>

text \<open>The state with the receive buffer of slot \<open>i\<close> replaced.\<close>

abbreviation set_buf :: "server \<Rightarrow> nat \<Rightarrow> byte list \<Rightarrow> server" where
  "set_buf s i b \<equiv> s\<lparr>clients := (clients s)[i := (clients s ! i)\<lparr>buf := b\<rparr>]\<rparr>"

text \<open>
  Successive readiness events on slot \<open>i\<close>, each \<^verbatim>\<open>read\<close> returning the next chunk,
  as the loop of \<^verbatim>\<open>main\<close> calls \<^verbatim>\<open>handle_client_data\<close>.
\<close>

fun reads :: "server \<Rightarrow> nat \<Rightarrow> byte list list \<Rightarrow> error + server" where
  "reads s i [] = Inr s"
| "reads s i (chunk # chunks) =
     (case handle_client_data s i (Data chunk) of
        Inl e \<Rightarrow> Inl e
      | Inr s' \<Rightarrow> reads s' i chunks)"

text \<open>The payloads sent to one descriptor, in the order of the sends.\<close>

fun sent_to :: "int \<Rightarrow> event list \<Rightarrow> byte list list" where
  "sent_to f [] = []"
| "sent_to f (Send g msg # es) = (if g = f then msg # sent_to f es else sent_to f es)"
| "sent_to f (Close g # es) = sent_to f es"

text \<open>
  A slot \<^verbatim>\<open>broadcast_message\<close> sends to: one whose descriptor is neither -1 nor 0.
  (\<^verbatim>\<open>accept\<close> gives no client the descriptor 0: the lowest free descriptor goes to the
  listening socket, which \<^verbatim>\<open>main\<close> opens first, unless standard input holds it.)
\<close>

definition connected :: "client_t \<Rightarrow> bool" where
  "connected c = (fd c \<noteq> -1 \<and> fd c > 0)"

text \<open>
  The invariant of the session table: a buffer never holds more than \<^verbatim>\<open>BUF_SIZE\<close>
  bytes, and an empty slot has an empty buffer and no username.
\<close>

definition slot_ok :: "client_t \<Rightarrow> bool" where
  "slot_ok c = (len c \<le> BUF_SIZE \<and> (fd c = -1 \<longrightarrow> len c = 0 \<and> \<not> has_username c))"

definition table_ok :: "server \<Rightarrow> bool" where
  "table_ok s = (\<forall>c \<in> set (clients s). slot_ok c)"

section \<open>Example states\<close>

text \<open>A slot as \<^verbatim>\<open>main\<close> initialises it, on memory cleared by \<^verbatim>\<open>calloc\<close>.\<close>

definition empty_slot :: client_t where
  "empty_slot = \<lparr>fd = -1, buf = [], addr = \<lparr>sin_addr = 0, sin_port = 0\<rparr>,
                  username = replicate MAX_USERNAME_LEN 0, has_username = False\<rparr>"

definition peer1 :: sockaddr_in where
  "peer1 = \<lparr>sin_addr = 0x0100007F, sin_port = 0x5000\<rparr>"

definition peer2 :: sockaddr_in where
  "peer2 = \<lparr>sin_addr = 0x0200007F, sin_port = 0x5100\<rparr>"

text \<open>A connection just accepted on descriptor 4, and a session registered as "bob" on 5.\<close>

definition guest :: client_t where
  "guest = empty_slot\<lparr>fd := 4, addr := peer1\<rparr>"

definition bob :: client_t where
  "bob = empty_slot\<lparr>fd := 5, addr := peer2,
                     username := [98, 111, 98] @ replicate 29 0, has_username := True\<rparr>"

definition lobby :: server where
  "lobby = \<lparr>clients = [guest, bob, empty_slot], events = []\<rparr>"

definition full_house :: server where
  "full_house = \<lparr>clients = [guest, bob], events = []\<rparr>"

text \<open>
  The scenario of the specification: the bytes \<^verbatim>\<open>\x03\x05alice\n\<close> and \<^verbatim>\<open>\x00hello\n\<close>
  a client sends, and the Join and Chat frames expected from the server for a sender
  whose peer address is \<open>a\<close>.
\<close>

definition alice :: "byte list" where
  "alice = [97, 108, 105, 99, 101]"

definition hello :: "byte list" where
  "hello = [104, 101, 108, 108, 111]"

definition register_alice :: "byte list" where
  "register_alice = [MSG_TYPE_USERNAME, 5] @ alice @ [NL]"

definition chat_hello :: "byte list" where
  "chat_hello = [MSG_TYPE_CHAT] @ hello @ [NL]"

definition join_alice :: "sockaddr_in \<Rightarrow> byte list" where
  "join_alice a = [MSG_TYPE_JOIN] @ u32_bytes (sin_addr a) @ u16_bytes (sin_port a) @ [5] @ alice @ [NL]"

definition chat_alice_hello :: "sockaddr_in \<Rightarrow> byte list" where
  "chat_alice_hello a =
     [MSG_TYPE_CHAT] @ u32_bytes (sin_addr a) @ u16_bytes (sin_port a) @ [5] @ alice @ hello @ [NL]"

text \<open>
  The username "alexander1" (10 characters) as \<^verbatim>\<open>main\<close> of the client copies it into
  \<^verbatim>\<open>thread_data.username\<close>.
\<close>

definition alexander1 :: "byte list" where
  "alexander1 = [97, 108, 101, 120, 97, 110, 100, 101, 114, 49] @ replicate 22 0"

text \<open>
  The table as \<^verbatim>\<open>main\<close> sets it up for two clients; a registration with a username of 31
  bytes and chat frames of 995 and 994 bytes; and the table after a connection accepted on
  descriptor 4 has sent that registration.
\<close>

definition fresh_table :: server where
  "fresh_table = \<lparr>clients = [empty_slot, empty_slot], events = []\<rparr>"

definition register31 :: "byte list" where
  "register31 = [MSG_TYPE_USERNAME, 31] @ replicate 31 65 @ [NL]"

definition chat995 :: "byte list" where
  "chat995 = MSG_TYPE_CHAT # replicate 993 66 @ [NL]"

definition chat994 :: "byte list" where
  "chat994 = MSG_TYPE_CHAT # replicate 992 66 @ [NL]"

definition long_name :: server where
  "long_name = \<lparr>clients = [guest\<lparr>username := replicate 31 65 @ [0], has_username := True\<rparr>,
                             empty_slot],
                 events = [Send 4 ([2, 127, 0, 0, 1, 0, 80, 31] @ replicate 31 65 @ [NL])]\<rparr>"

section \<open>Facts about the operations\<close>

lemma memchr_append_hit: "c \<notin> set xs \<Longrightarrow> memchr (xs @ c # ys) c = Some (length xs)"
  by (induction xs) auto

lemma memchr_None_iff: "memchr xs c = None \<longleftrightarrow> c \<notin> set xs"
  by (induction xs) auto

lemma find_slot_None_iff: "find_slot cs = None \<longleftrightarrow> (\<forall>c \<in> set cs. fd c \<noteq> -1)"
  by (induction cs) auto

lemma find_slot_Some:
  "find_slot cs = Some j \<Longrightarrow> j < length cs \<and> fd (cs ! j) = -1 \<and> (\<forall>k < j. fd (cs ! k) \<noteq> -1)"
proof (induction cs arbitrary: j)
  case Nil
  then show ?case by simp
next
  case (Cons c cs)
  show ?case
  proof (cases "fd c = -1")
    case True
    then show ?thesis using Cons.prems by simp
  next
    case False
    then obtain j' where j': "find_slot cs = Some j'" "j = Suc j'"
      using Cons.prems by auto
    then show ?thesis using Cons.IH[OF j'(1)] False by (auto simp: less_Suc_eq_0_disj)
  qed
qed

lemma send_all_filter:
  "send_all cs msg = map (\<lambda>c. Send (fd c) msg) (filter connected cs)"
  by (induction cs) (auto simp: connected_def)

lemma send_all_fd_cong: "map fd cs = map fd cs' \<Longrightarrow> send_all cs msg = send_all cs' msg"
proof (induction cs arbitrary: cs')
  case Nil
  then show ?case by simp
next
  case (Cons c cs)
  then obtain d ds where "cs' = d # ds" "fd d = fd c" "map fd cs = map fd ds"
    by (cases cs') auto
  then show ?case using Cons.IH by simp
qed

lemma sent_to_append [simp]: "sent_to f (xs @ ys) = sent_to f xs @ sent_to f ys"
  by (induction f xs rule: sent_to.induct) auto

lemma sent_to_send_all_none:
  "f \<notin> fd ` set (filter connected cs) \<Longrightarrow> sent_to f (send_all cs msg) = []"
  by (induction cs) (auto simp: connected_def)

lemma sent_to_send_all_one:
  "distinct (map fd (filter connected cs)) \<Longrightarrow> c \<in> set cs \<Longrightarrow> connected c \<Longrightarrow>
   sent_to (fd c) (send_all cs msg) = [msg]"
proof (induction cs)
  case Nil
  then show ?case by simp
next
  case (Cons a cs)
  show ?case
  proof (cases "connected a \<and> fd a = fd c")
    case True
    then have "fd c \<notin> fd ` set (filter connected cs)" using Cons.prems(1) by auto
    then have "sent_to (fd c) (send_all cs msg) = []" by (rule sent_to_send_all_none)
    then show ?thesis using True by (simp add: connected_def)
  next
    case False
    then have "c \<in> set cs" using Cons.prems by auto
    moreover have "distinct (map fd (filter connected cs))" using Cons.prems(1) by (auto split: if_splits)
    ultimately have "sent_to (fd c) (send_all cs msg) = [msg]" using Cons.IH Cons.prems(3) by simp
    then show ?thesis using False by (auto simp: connected_def)
  qed
qed

lemma take_strlen: "take (strlen u) u = c_string u"
  by (simp add: strlen_def c_string_def takeWhile_eq_take[symmetric])

lemma frame_header_c_string:
  assumes "strlen uname < 256"
  shows "frame_header t a uname =
         [t] @ u32_bytes (sin_addr a) @ u16_bytes (sin_port a) @ [of_nat (strlen uname)] @ c_string uname"
proof -
  have "unat (of_nat (strlen uname) :: byte) = strlen uname"
    using assms by (simp add: unat_of_nat)
  then show ?thesis by (simp add: frame_header_def Let_def take_strlen)
qed

lemma frame_header_nonempty [simp]: "frame_header t a uname \<noteq> []"
  by (simp add: frame_header_def Let_def)

lemma c_string_terminated: "0 \<notin> set name \<Longrightarrow> c_string (name @ 0 # rest) = name"
  by (induction name) (auto simp: c_string_def)

lemma process_message_alive:
  "process_message s i m = Inr s1 \<Longrightarrow> i < max_clients s \<Longrightarrow> fd (clients s1 ! i) \<noteq> -1 \<Longrightarrow>
   buf (clients s1 ! i) = buf (clients s ! i) \<and> fd (clients s1 ! i) = fd (clients s ! i)"
  by (auto simp: process_message_def Let_def remove_client_def broadcast_message_def split: if_splits)

lemma set_buf_same: "i < max_clients s \<Longrightarrow> buf (clients s ! i) = b \<Longrightarrow> set_buf s i b = s"
  by (cases s) (auto simp: list_update_same_conv)

lemma process_buffer_no_newline:
  assumes "i < max_clients s" "fd (clients s ! i) \<noteq> -1" "NL \<notin> set (buf (clients s ! i))"
    "len (clients s ! i) \<noteq> BUF_SIZE"
  shows "process_buffer s i = Inr s"
proof -
  have "memchr (buf (clients s ! i)) NL = None" using assms(3) by (simp add: memchr_None_iff)
  then show ?thesis using assms by (subst process_buffer.simps) (simp add: Let_def)
qed

lemma process_buffer_overflow:
  assumes "i < max_clients s" "fd (clients s ! i) \<noteq> -1" "NL \<notin> set (buf (clients s ! i))"
    "len (clients s ! i) = BUF_SIZE"
  shows "process_buffer s i = Inr (remove_client s i)"
proof -
  have "memchr (buf (clients s ! i)) NL = None" using assms(3) by (simp add: memchr_None_iff)
  then show ?thesis using assms by (subst process_buffer.simps) (simp add: Let_def)
qed

lemma process_buffer_frame:
  assumes "i < max_clients s" "fd (clients s ! i) \<noteq> -1"
    "buf (clients s ! i) = body @ NL # rest" "NL \<notin> set body"
  shows "process_buffer s i =
     (case process_message s i (length body + 1) of
        Inl e \<Rightarrow> Inl e
      | Inr s1 \<Rightarrow> if fd (clients s1 ! i) = -1 then Inr s1
                 else process_buffer (set_buf s1 i rest) i)"
proof -
  have m: "memchr (buf (clients s ! i)) NL = Some (length body)"
    using assms by (simp add: memchr_append_hit)
  show ?thesis
  proof (cases "process_message s i (length body + 1)")
    case (Inl e)
    then show ?thesis using assms m by (subst process_buffer.simps) (simp add: Let_def)
  next
    case (Inr s1)
    show ?thesis
    proof (cases "fd (clients s1 ! i) = -1")
      case True
      then show ?thesis using assms Inr m by (subst process_buffer.simps) (simp add: Let_def)
    next
      case False
      then have "buf (clients s1 ! i) = body @ NL # rest"
        using process_message_alive[OF Inr assms(1)] assms(3) by simp
      then show ?thesis using assms Inr m False
        by (subst process_buffer.simps) (simp add: Let_def)
    qed
  qed
qed

lemma handle_client_data_Data:
  assumes "fd (clients s ! i) \<noteq> -1" "chunk \<noteq> []"
    "len (clients s ! i) + length chunk \<le> BUF_SIZE"
  shows "handle_client_data s i (Data chunk) =
         process_buffer (set_buf s i (buf (clients s ! i) @ chunk)) i"
proof -
  have "take (BUF_SIZE - len (clients s ! i)) chunk = chunk" using assms(3) by simp
  then show ?thesis using assms(1,2) by (simp add: handle_client_data_def Let_def)
qed

text \<open>One complete frame arriving on an empty buffer.\<close>

lemma handle_single_frame:
  assumes "i < max_clients s" "fd (clients s ! i) \<noteq> -1" "buf (clients s ! i) = []"
    "NL \<notin> set body" "length body + 1 \<le> BUF_SIZE"
  shows "handle_client_data s i (Data (body @ [NL])) =
     (case process_message (set_buf s i (body @ [NL])) i (length body + 1) of
        Inl e \<Rightarrow> Inl e
      | Inr s1 \<Rightarrow> Inr (if fd (clients s1 ! i) = -1 then s1 else set_buf s1 i []))"
proof -
  let ?s = "set_buf s i (body @ [NL])"
  have 1: "handle_client_data s i (Data (body @ [NL])) = process_buffer ?s i"
    using assms handle_client_data_Data[of s i "body @ [NL]"] by simp
  have 2: "process_buffer ?s i =
     (case process_message ?s i (length body + 1) of
        Inl e \<Rightarrow> Inl e
      | Inr s1 \<Rightarrow> if fd (clients s1 ! i) = -1 then Inr s1
                 else process_buffer (set_buf s1 i []) i)"
    using assms by (intro process_buffer_frame) auto
  have 3: "process_buffer (set_buf s1 i []) i = Inr (set_buf s1 i [])"
    if "process_message ?s i (length body + 1) = Inr s1" "fd (clients s1 ! i) \<noteq> -1" for s1
  proof -
    have "max_clients s1 = max_clients s" using process_message_length[OF that(1)] by simp
    then show ?thesis using that assms by (intro process_buffer_no_newline) auto
  qed
  show ?thesis unfolding 1 2 using 3 by (auto split: sum.splits)
qed

section \<open>Frames without effect\<close>

lemma process_message_registered_username:
  "has_username (clients s ! i) \<Longrightarrow> buf (clients s ! i) ! 0 = MSG_TYPE_USERNAME \<Longrightarrow>
   process_message s i msg_len = Inr s"
  by (simp add: process_message_def Let_def)

lemma process_message_unregistered_chat:
  "\<not> has_username (clients s ! i) \<Longrightarrow> buf (clients s ! i) ! 0 = MSG_TYPE_CHAT \<Longrightarrow>
   process_message s i msg_len = Inr s"
  by (simp add: process_message_def Let_def)

lemma process_message_malformed:
  assumes "\<not> has_username (clients s ! i)" "buf (clients s ! i) ! 0 = MSG_TYPE_USERNAME"
    "msg_len \<le> 2 \<or> unat (buf (clients s ! i) ! 1) = 0
     \<or> MAX_USERNAME_LEN \<le> unat (buf (clients s ! i) ! 1)
     \<or> msg_len < 2 + unat (buf (clients s ! i) ! 1)"
  shows "process_message s i msg_len = Inr s"
  using assms by (auto simp: process_message_def Let_def)

text \<open>A frame that \<open>process_message\<close> leaves without effect is consumed without effect.\<close>

lemma handle_ignored_frame:
  assumes "i < max_clients s" "fd (clients s ! i) \<noteq> -1" "buf (clients s ! i) = []"
    "NL \<notin> set body" "length body + 1 \<le> BUF_SIZE"
    "process_message (set_buf s i (body @ [NL])) i (length body + 1) = Inr (set_buf s i (body @ [NL]))"
  shows "handle_client_data s i (Data (body @ [NL])) = Inr s"
proof -
  let ?s = "set_buf s i (body @ [NL])"
  have "handle_client_data s i (Data (body @ [NL])) = Inr (set_buf ?s i [])"
    using handle_single_frame[OF assms(1-5)] assms(1,2,6) by simp
  moreover have "set_buf ?s i [] = s"
    using assms(1,3) by (cases s) (simp add: list_update_same_conv)
  ultimately show ?thesis by simp
qed

section \<open>C9: a second registration has no effect\<close>

text \<open>
  C9. For a session that is already registered, a further UsernameRegister frame changes
  nothing: \<^verbatim>\<open>process_message\<close> returns the state it was given (the stored username,
  the flag \<^verbatim>\<open>has_username\<close>, every other field of every slot and the trace of sends are
  the same, so no Join frame is broadcast), whatever the frame holds after its type byte.
  Read from the socket as one complete frame into an empty buffer, the frame is consumed
  and the server state is again the one before the read.
\<close>

theorem registered_ignores_registration:
  assumes "i < max_clients s" and "fd (clients s ! i) \<noteq> -1" and "has_username (clients s ! i)"
  shows "(buf (clients s ! i) ! 0 = MSG_TYPE_USERNAME \<longrightarrow> process_message s i msg_len = Inr s)
       \<and> (buf (clients s ! i) = [] \<and> NL \<notin> set body \<and> length body + 2 \<le> BUF_SIZE \<longrightarrow>
            handle_client_data s i (Data (MSG_TYPE_USERNAME # body @ [NL])) = Inr s)"
proof (intro conjI impI)
  assume "buf (clients s ! i) ! 0 = MSG_TYPE_USERNAME"
  with assms(3) show "process_message s i msg_len = Inr s"
    by (rule process_message_registered_username)
next
  assume a: "buf (clients s ! i) = [] \<and> NL \<notin> set body \<and> length body + 2 \<le> BUF_SIZE"
  let ?s = "set_buf s i ((MSG_TYPE_USERNAME # body) @ [NL])"
  have "process_message ?s i (length (MSG_TYPE_USERNAME # body) + 1) = Inr ?s"
    using assms by (intro process_message_registered_username) auto
  then have "handle_client_data s i (Data ((MSG_TYPE_USERNAME # body) @ [NL])) = Inr s"
    using assms a by (intro handle_ignored_frame) auto
  then show "handle_client_data s i (Data (MSG_TYPE_USERNAME # body @ [NL])) = Inr s" by simp
qed

theorem registered_ignores_registration_witness:
  "process_message (set_buf lobby 1 [3, 3, 97, 110, 110, 10]) 1 6
     = Inr (set_buf lobby 1 [3, 3, 97, 110, 110, 10])
   \<and> handle_client_data lobby 1 (Data [3, 3, 97, 110, 110, 10]) = Inr lobby"
  using registered_ignores_registration[of 1 "set_buf lobby 1 [3, 3, 97, 110, 110, 10]" 6]
    registered_ignores_registration[of 1 lobby _ "[3, 97, 110, 110]"]
  by (simp add: lobby_def bob_def guest_def empty_slot_def)

section \<open>C5: frames from an unregistered session\<close>

lemma process_message_unregistered_disconnect:
  assumes "fd (clients s ! i) \<noteq> -1" "\<not> has_username (clients s ! i)"
    "buf (clients s ! i) ! 0 = MSG_TYPE_DISCONNECT"
  shows "process_message s i msg_len =
         Inr (s\<lparr>clients := (clients s)[i := (clients s ! i)\<lparr>fd := -1, buf := [], has_username := False\<rparr>],
                events := events s @ [Close (fd (clients s ! i))]\<rparr>)"
  using assms by (simp add: process_message_def remove_client_def Let_def)

text \<open>
  C5, as the code has it. For a connected session that has not registered:
  a Chat frame is without effect (\<^verbatim>\<open>process_message\<close> returns the state it was given,
  so the session stays connected and unregistered and nothing is sent; read as one
  complete frame into an empty buffer it is consumed and the state is the one before
  the read). A Disconnect frame is not ignored: \<^verbatim>\<open>process_message\<close> calls
  \<^verbatim>\<open>remove_client\<close>, which closes the socket and empties the slot; the only new event
  is that \<^verbatim>\<open>close\<close>, no frame is broadcast.
\<close>

theorem unregistered_chat_ignored_disconnect_closes:
  assumes "i < max_clients s" and "fd (clients s ! i) \<noteq> -1" and "\<not> has_username (clients s ! i)"
  shows "(buf (clients s ! i) ! 0 = MSG_TYPE_CHAT \<longrightarrow> process_message s i msg_len = Inr s)
       \<and> (buf (clients s ! i) = [] \<and> NL \<notin> set body \<and> length body + 2 \<le> BUF_SIZE \<longrightarrow>
            handle_client_data s i (Data (MSG_TYPE_CHAT # body @ [NL])) = Inr s)
       \<and> (buf (clients s ! i) ! 0 = MSG_TYPE_DISCONNECT \<longrightarrow>
            process_message s i msg_len =
              Inr (s\<lparr>clients := (clients s)[i := (clients s ! i)\<lparr>fd := -1, buf := [], has_username := False\<rparr>],
                     events := events s @ [Close (fd (clients s ! i))]\<rparr>))"
proof (intro conjI impI)
  assume "buf (clients s ! i) ! 0 = MSG_TYPE_CHAT"
  with assms(3) show "process_message s i msg_len = Inr s"
    by (rule process_message_unregistered_chat)
next
  assume a: "buf (clients s ! i) = [] \<and> NL \<notin> set body \<and> length body + 2 \<le> BUF_SIZE"
  let ?s = "set_buf s i ((MSG_TYPE_CHAT # body) @ [NL])"
  have "process_message ?s i (length (MSG_TYPE_CHAT # body) + 1) = Inr ?s"
    using assms by (intro process_message_unregistered_chat) auto
  then have "handle_client_data s i (Data ((MSG_TYPE_CHAT # body) @ [NL])) = Inr s"
    using assms a by (intro handle_ignored_frame) auto
  then show "handle_client_data s i (Data (MSG_TYPE_CHAT # body @ [NL])) = Inr s" by simp
next
  assume "buf (clients s ! i) ! 0 = MSG_TYPE_DISCONNECT"
  with assms(2,3) show "process_message s i msg_len =
      Inr (s\<lparr>clients := (clients s)[i := (clients s ! i)\<lparr>fd := -1, buf := [], has_username := False\<rparr>],
             events := events s @ [Close (fd (clients s ! i))]\<rparr>)"
    by (rule process_message_unregistered_disconnect)
qed

theorem unregistered_chat_ignored_disconnect_closes_witness:
  "process_message (set_buf lobby 0 [0, 104, 105, 10]) 0 4 = Inr (set_buf lobby 0 [0, 104, 105, 10])
   \<and> handle_client_data lobby 0 (Data [0, 104, 105, 10]) = Inr lobby
   \<and> process_message (set_buf lobby 0 [1, 10]) 0 2
       = Inr \<lparr>clients = [guest\<lparr>fd := -1\<rparr>, bob, empty_slot], events = [Close 4]\<rparr>"
  using unregistered_chat_ignored_disconnect_closes[of 0 "set_buf lobby 0 [0, 104, 105, 10]" 4]
    unregistered_chat_ignored_disconnect_closes[of 0 lobby _ "[104, 105]"]
    unregistered_chat_ignored_disconnect_closes[of 0 "set_buf lobby 0 [1, 10]" 2]
  by (simp add: lobby_def bob_def guest_def empty_slot_def)

text \<open>
  The claim as stated fails for the Disconnect frame: the guest on descriptor 4 has no
  username, sends \<^verbatim>\<open>\x01\n\<close>, and its socket is closed and its slot emptied.
\<close>

theorem unregistered_disconnect_counterexample:
  "fd (clients lobby ! 0) = 4 \<and> \<not> has_username (clients lobby ! 0)
   \<and> handle_client_data lobby 0 (Data [MSG_TYPE_DISCONNECT, NL])
       = Inr \<lparr>clients = [guest\<lparr>fd := -1\<rparr>, bob, empty_slot], events = [Close 4]\<rparr>"
proof -
  have "handle_client_data lobby 0 (Data ([MSG_TYPE_DISCONNECT] @ [NL]))
        = Inr \<lparr>clients = [guest\<lparr>fd := -1\<rparr>, bob, empty_slot], events = [Close 4]\<rparr>"
    by (subst handle_single_frame)
       (simp_all add: lobby_def guest_def bob_def empty_slot_def process_message_def
          remove_client_def Let_def)
  then show ?thesis by (simp add: lobby_def guest_def empty_slot_def)
qed

section \<open>C6: malformed registration\<close>

text \<open>
  C6, as the code has it. For a connected session that has not registered, a
  UsernameRegister frame whose declared username length is 0, or 32 or more, or larger
  than the frame length less 2 (the frame's bytes after the length byte, terminator
  included, are fewer than declared), or that has no length byte at all, is without
  effect: the session is not torn down, it stays connected and unregistered, nothing is
  sent or closed, and no other slot changes. Read as one complete frame into an empty
  buffer, such a frame is consumed and the state is the one before the read.
\<close>

theorem malformed_registration_ignored:
  assumes "i < max_clients s" and "fd (clients s ! i) \<noteq> -1" and "\<not> has_username (clients s ! i)"
  shows "(buf (clients s ! i) ! 0 = MSG_TYPE_USERNAME
          \<and> (msg_len \<le> 2 \<or> unat (buf (clients s ! i) ! 1) = 0
             \<or> MAX_USERNAME_LEN \<le> unat (buf (clients s ! i) ! 1)
             \<or> msg_len < 2 + unat (buf (clients s ! i) ! 1))
          \<longrightarrow> process_message s i msg_len = Inr s)
       \<and> (buf (clients s ! i) = [] \<and> NL \<notin> set body \<and> length body + 2 \<le> BUF_SIZE
          \<and> (body = [] \<or> unat (hd body) = 0 \<or> MAX_USERNAME_LEN \<le> unat (hd body)
             \<or> length body < unat (hd body))
          \<longrightarrow> handle_client_data s i (Data (MSG_TYPE_USERNAME # body @ [NL])) = Inr s)"
proof (intro conjI impI)
  assume "buf (clients s ! i) ! 0 = MSG_TYPE_USERNAME
          \<and> (msg_len \<le> 2 \<or> unat (buf (clients s ! i) ! 1) = 0
             \<or> MAX_USERNAME_LEN \<le> unat (buf (clients s ! i) ! 1)
             \<or> msg_len < 2 + unat (buf (clients s ! i) ! 1))"
  then show "process_message s i msg_len = Inr s"
    using assms(3) by (intro process_message_malformed) auto
next
  assume a: "buf (clients s ! i) = [] \<and> NL \<notin> set body \<and> length body + 2 \<le> BUF_SIZE
          \<and> (body = [] \<or> unat (hd body) = 0 \<or> MAX_USERNAME_LEN \<le> unat (hd body)
             \<or> length body < unat (hd body))"
  let ?f = "(MSG_TYPE_USERNAME # body) @ [NL]"
  let ?s = "set_buf s i ?f"
  have second: "buf (clients ?s ! i) ! 1 = hd body" if "body \<noteq> []"
    using that assms(1) by (cases body) auto
  have "length (MSG_TYPE_USERNAME # body) + 1 \<le> 2 \<or> unat (buf (clients ?s ! i) ! 1) = 0
        \<or> MAX_USERNAME_LEN \<le> unat (buf (clients ?s ! i) ! 1)
        \<or> length (MSG_TYPE_USERNAME # body) + 1 < 2 + unat (buf (clients ?s ! i) ! 1)"
  proof (cases "body = []")
    case True
    then show ?thesis by simp
  next
    case False
    then show ?thesis using a second[OF False] by auto
  qed
  then have "process_message ?s i (length (MSG_TYPE_USERNAME # body) + 1) = Inr ?s"
    using assms by (intro process_message_malformed) auto
  then have "handle_client_data s i (Data ?f) = Inr s"
    using assms a by (intro handle_ignored_frame) auto
  then show "handle_client_data s i (Data (MSG_TYPE_USERNAME # body @ [NL])) = Inr s" by simp
qed

theorem malformed_registration_ignored_witness:
  "process_message (set_buf lobby 0 [3, 40, 97, 10]) 0 4 = Inr (set_buf lobby 0 [3, 40, 97, 10])
   \<and> handle_client_data lobby 0 (Data [3, 5, 97, 108, 10]) = Inr lobby"
  using malformed_registration_ignored[of 0 "set_buf lobby 0 [3, 40, 97, 10]" 4]
    malformed_registration_ignored[of 0 lobby _ "[5, 97, 108]"]
  by (simp add: lobby_def bob_def guest_def empty_slot_def)

text \<open>
  The claim as stated fails: the guest on descriptor 4 sends a registration that declares
  a username of length 0, and afterwards it is still connected on descriptor 4, with
  nothing closed.
\<close>

theorem malformed_registration_counterexample:
  "fd (clients lobby ! 0) = 4 \<and> \<not> has_username (clients lobby ! 0)
   \<and> handle_client_data lobby 0 (Data [MSG_TYPE_USERNAME, 0, NL]) = Inr lobby
   \<and> events lobby = []"
proof -
  have "handle_client_data lobby 0 (Data ([MSG_TYPE_USERNAME, 0] @ [NL])) = Inr lobby"
    by (rule handle_ignored_frame)
       (simp_all add: lobby_def guest_def bob_def empty_slot_def process_message_def Let_def)
  then show ?thesis by (simp add: lobby_def guest_def empty_slot_def)
qed

section \<open>C4: fan-out of a chat frame\<close>

lemma chat_msg_nonempty [simp]: "chat_msg cli msg_len \<noteq> []"
  by (simp add: chat_msg_def Let_def)

lemma process_message_chat:
  assumes "has_username (clients s ! i)" "buf (clients s ! i) ! 0 = MSG_TYPE_CHAT"
    "length (chat_msg (clients s ! i) msg_len) \<le> BUF_SIZE + 8"
  shows "process_message s i msg_len =
         Inr (s\<lparr>events := events s @ send_all (clients s) (chat_msg (clients s ! i) msg_len)\<rparr>)"
  using assms by (simp add: process_message_def broadcast_message_def Let_def)

text \<open>
  C4, as the code has it. When a registered session S has a Chat frame processed, and the
  relayed frame fits the array it is assembled in (\<^verbatim>\<open>BUF_SIZE + 8\<close> bytes),
  \<^verbatim>\<open>broadcast_message\<close> performs exactly one send to every slot with a live descriptor,
  in slot order, whether that slot has registered a username or not, S included; all
  sends carry the same bytes, and the table is unchanged. The number of sends is the
  number of connected slots, not the number of registered ones.
\<close>

theorem chat_fan_out:
  assumes "i < max_clients s" and "has_username (clients s ! i)"
    and "buf (clients s ! i) ! 0 = MSG_TYPE_CHAT"
    and "length (chat_msg (clients s ! i) msg_len) \<le> BUF_SIZE + 8"
  shows "\<exists>s'. process_message s i msg_len = Inr s'
           \<and> clients s' = clients s
           \<and> events s' = events s @ map (\<lambda>c. Send (fd c) (chat_msg (clients s ! i) msg_len))
                                       (filter connected (clients s))
           \<and> length (events s') = length (events s) + length (filter connected (clients s))
           \<and> (connected (clients s ! i) \<longrightarrow>
                Send (fd (clients s ! i)) (chat_msg (clients s ! i) msg_len) \<in> set (events s'))"
proof -
  let ?msg = "chat_msg (clients s ! i) msg_len"
  let ?s' = "s\<lparr>events := events s @ send_all (clients s) ?msg\<rparr>"
  have run: "process_message s i msg_len = Inr ?s'"
    using assms(2-4) by (rule process_message_chat)
  have sends: "send_all (clients s) ?msg = map (\<lambda>c. Send (fd c) ?msg) (filter connected (clients s))"
    by (rule send_all_filter)
  have self: "Send (fd (clients s ! i)) ?msg \<in> set (events ?s')" if "connected (clients s ! i)"
  proof -
    have "clients s ! i \<in> set (filter connected (clients s))"
      using that assms(1) by simp
    then show ?thesis unfolding sends by force
  qed
  show ?thesis
    using run sends self by (intro exI[of _ ?s']) simp
qed

theorem chat_fan_out_witness:
  "process_message (set_buf lobby 1 [0, 104, 105, 10]) 1 4
     = Inr ((set_buf lobby 1 [0, 104, 105, 10])
            \<lparr>events := [Send 4 [0, 127, 0, 0, 2, 0, 81, 3, 98, 111, 98, 104, 105, 10],
                        Send 5 [0, 127, 0, 0, 2, 0, 81, 3, 98, 111, 98, 104, 105, 10]]\<rparr>)"
proof -
  let ?s = "set_buf lobby 1 [0, 104, 105, 10]"
  have u: "c_string (username bob) = [98, 111, 98]"
    by (simp add: bob_def empty_slot_def c_string_def)
  have m: "chat_msg (clients ?s ! 1) 4 = [0, 127, 0, 0, 2, 0, 81, 3, 98, 111, 98, 104, 105, 10]"
    using u by (simp add: lobby_def chat_msg_def frame_header_c_string strlen_def
        u32_bytes_def u16_bytes_def bob_def empty_slot_def peer2_def)
  obtain s' where s': "process_message ?s 1 4 = Inr s'" "clients s' = clients ?s"
    "events s' = events ?s @ map (\<lambda>c. Send (fd c) (chat_msg (clients ?s ! 1) 4))
                                 (filter connected (clients ?s))"
    using m chat_fan_out[of 1 ?s 4] by (auto simp: lobby_def bob_def empty_slot_def)
  have "events s' = [Send 4 [0, 127, 0, 0, 2, 0, 81, 3, 98, 111, 98, 104, 105, 10],
                     Send 5 [0, 127, 0, 0, 2, 0, 81, 3, 98, 111, 98, 104, 105, 10]]"
    unfolding s'(3) m by (simp add: lobby_def connected_def guest_def bob_def empty_slot_def)
  then have "s' = ?s\<lparr>events := [Send 4 [0, 127, 0, 0, 2, 0, 81, 3, 98, 111, 98, 104, 105, 10],
                     Send 5 [0, 127, 0, 0, 2, 0, 81, 3, 98, 111, 98, 104, 105, 10]]\<rparr>"
    using s'(2) by (cases s') simp
  then show ?thesis using s'(1) by simp
qed

text \<open>The example: in \<open>lobby\<close> bob sends the chat frame \<^verbatim>\<open>\x00hi\n\<close>.\<close>

lemma lobby_bob_says_hi:
  "handle_client_data lobby 1 (Data [MSG_TYPE_CHAT, 104, 105, NL])
     = Inr (lobby\<lparr>events := [Send 4 [0, 127, 0, 0, 2, 0, 81, 3, 98, 111, 98, 104, 105, 10],
                             Send 5 [0, 127, 0, 0, 2, 0, 81, 3, 98, 111, 98, 104, 105, 10]]\<rparr>)"
proof -
  let ?s = "set_buf lobby 1 ([0, 104, 105] @ [NL])"
  have u: "c_string (username bob) = [98, 111, 98]"
    by (simp add: bob_def empty_slot_def c_string_def)
  have m: "chat_msg (clients ?s ! 1) 4 = [0, 127, 0, 0, 2, 0, 81, 3, 98, 111, 98, 104, 105, 10]"
    using u by (simp add: lobby_def chat_msg_def frame_header_c_string strlen_def
        u32_bytes_def u16_bytes_def bob_def empty_slot_def peer2_def)
  have p: "process_message ?s 1 4
           = Inr (?s\<lparr>events := events ?s @ send_all (clients ?s)
                     [0, 127, 0, 0, 2, 0, 81, 3, 98, 111, 98, 104, 105, 10]\<rparr>)"
    using m process_message_chat[of ?s 1 4] by (simp add: lobby_def bob_def empty_slot_def)
  have l: "length [0 :: byte, 104, 105] + 1 = 4" by simp
  have h: "handle_client_data lobby 1 (Data ([0, 104, 105] @ [NL])) =
     (case process_message ?s 1 (length [0 :: byte, 104, 105] + 1) of
        Inl e \<Rightarrow> Inl e
      | Inr s1 \<Rightarrow> Inr (if fd (clients s1 ! 1) = -1 then s1 else set_buf s1 1 []))"
    by (rule handle_single_frame) (simp_all add: lobby_def bob_def empty_slot_def)
  have "handle_client_data lobby 1 (Data ([0, 104, 105] @ [NL]))
       = Inr (lobby\<lparr>events := [Send 4 [0, 127, 0, 0, 2, 0, 81, 3, 98, 111, 98, 104, 105, 10],
                               Send 5 [0, 127, 0, 0, 2, 0, 81, 3, 98, 111, 98, 104, 105, 10]]\<rparr>)"
    unfolding h l p by (simp add: lobby_def guest_def bob_def empty_slot_def)
  then show ?thesis by simp
qed

text \<open>
  The claim as stated fails: in \<open>lobby\<close> only bob (descriptor 5) has registered, the guest
  on descriptor 4 has not, and bob's chat frame is sent twice: to the unregistered guest
  and to bob.
\<close>

theorem chat_fan_out_counterexample:
  "length (filter has_username (clients lobby)) = 1
   \<and> \<not> has_username (clients lobby ! 0) \<and> fd (clients lobby ! 0) = 4
   \<and> handle_client_data lobby 1 (Data [MSG_TYPE_CHAT, 104, 105, NL])
       = Inr (lobby\<lparr>events := [Send 4 [0, 127, 0, 0, 2, 0, 81, 3, 98, 111, 98, 104, 105, 10],
                               Send 5 [0, 127, 0, 0, 2, 0, 81, 3, 98, 111, 98, 104, 105, 10]]\<rparr>)"
  using lobby_bob_says_hi by (simp add: lobby_def guest_def bob_def empty_slot_def)

section \<open>C8: a connection arriving at a full table\<close>

text \<open>
  C8. When \<^verbatim>\<open>accept\<close> returns a connection and no slot of the table has the descriptor
  -1, \<^verbatim>\<open>accept_client\<close> closes the new descriptor and does nothing else: the only new
  event is that \<^verbatim>\<open>close\<close> and the table is the same, slot for slot, so the existing
  sessions are untouched and the connection is in no slot. A broadcast over the
  resulting table sends nothing to the rejected descriptor (which no slot holds).
\<close>

theorem full_table_rejects:
  assumes "\<forall>c \<in> set (clients s). fd c \<noteq> -1" and "client_fd \<noteq> -1"
  shows "accept_client s client_fd remote_addr nonblocking = s\<lparr>events := events s @ [Close client_fd]\<rparr>
       \<and> (client_fd \<notin> fd ` set (clients s) \<longrightarrow>
            Send client_fd msg \<notin>
              set (send_all (clients (accept_client s client_fd remote_addr nonblocking)) msg))"
proof -
  have none: "find_slot (clients s) = None"
    using assms(1) by (simp add: find_slot_None_iff)
  have rej: "accept_client s client_fd remote_addr nonblocking = s\<lparr>events := events s @ [Close client_fd]\<rparr>"
    using assms(2) none by (simp add: accept_client_def)
  have "Send client_fd msg \<notin> set (send_all (clients s) msg)" if "client_fd \<notin> fd ` set (clients s)"
    using that by (auto simp: send_all_filter)
  then show ?thesis
    unfolding rej by simp
qed

theorem full_table_rejects_witness:
  "accept_client full_house 6 peer1 0 = full_house\<lparr>events := [Close 6]\<rparr>
   \<and> Send 6 [0, 104, 105, 10] \<notin>
       set (send_all (clients (accept_client full_house 6 peer1 0)) [0, 104, 105, 10])"
proof -
  have "\<forall>c \<in> set (clients full_house). fd c \<noteq> -1"
    by (simp add: full_house_def guest_def bob_def empty_slot_def)
  moreover have "6 \<notin> fd ` set (clients full_house)"
    by (simp add: full_house_def guest_def bob_def empty_slot_def)
  ultimately show ?thesis
    using full_table_rejects[of full_house 6 peer1 0 "[0, 104, 105, 10]"]
    by (simp add: full_house_def)
qed

section \<open>C7: a full buffer without terminator\<close>

lemma disconnect_msg_nonempty [simp]: "disconnect_msg a u \<noteq> []"
  by (simp add: disconnect_msg_def)

lemma remove_client_clients:
  "fd (clients s ! i) \<noteq> -1 \<Longrightarrow>
   clients (remove_client s i) =
     (clients s)[i := (clients s ! i)\<lparr>fd := -1, buf := [], has_username := False\<rparr>]"
  by (simp add: remove_client_def Let_def)

lemma remove_client_events:
  "fd (clients s ! i) \<noteq> -1 \<Longrightarrow>
   events (remove_client s i) =
     events s @ Close (fd (clients s ! i))
       # (if has_username (clients s ! i)
          then send_all (clients (remove_client s i))
                 (disconnect_msg (addr (clients s ! i)) (username (clients s ! i)))
          else [])"
  by (simp add: remove_client_def broadcast_message_def Let_def)

lemma find_slot_first:
  "j < length cs \<Longrightarrow> fd (cs ! j) = -1 \<Longrightarrow> \<forall>k < j. fd (cs ! k) \<noteq> -1 \<Longrightarrow> find_slot cs = Some j"
proof (induction cs arbitrary: j)
  case Nil
  then show ?case by simp
next
  case (Cons c cs)
  show ?case
  proof (cases j)
    case 0
    then show ?thesis using Cons.prems by simp
  next
    case (Suc j')
    have "fd c \<noteq> -1" using Cons.prems(3) Suc by auto
    moreover have "find_slot cs = Some j'"
      using Cons.prems Suc by (intro Cons.IH) auto
    ultimately show ?thesis using Suc by simp
  qed
qed

lemma find_slot_exists:
  "j < length cs \<Longrightarrow> fd (cs ! j) = -1 \<Longrightarrow> \<exists>k \<le> j. find_slot cs = Some k"
proof (induction cs arbitrary: j)
  case Nil
  then show ?case by simp
next
  case (Cons c cs)
  show ?case
  proof (cases "fd c = -1")
    case True
    then show ?thesis by simp
  next
    case False
    then obtain j' where j': "j = Suc j'" using Cons.prems by (cases j) auto
    then obtain k where "k \<le> j'" "find_slot cs = Some k"
      using Cons.IH[of j'] Cons.prems by auto
    then show ?thesis using False j' by auto
  qed
qed

lemma handle_client_data_overflow:
  assumes "i < max_clients s" "fd (clients s ! i) \<noteq> -1" "NL \<notin> set (buf (clients s ! i))"
    "NL \<notin> set chunk" "len (clients s ! i) + length chunk = BUF_SIZE"
  shows "handle_client_data s i (Data chunk) =
         Inr (remove_client (set_buf s i (buf (clients s ! i) @ chunk)) i)"
proof (cases "chunk = []")
  case True
  then have "handle_client_data s i (Data chunk) = Inr (remove_client s i)"
    using assms(2) by (simp add: handle_client_data_def Let_def)
  moreover have "set_buf s i (buf (clients s ! i) @ chunk) = s"
    using True assms(1) by (simp add: set_buf_same)
  ultimately show ?thesis by simp
next
  case False
  let ?s = "set_buf s i (buf (clients s ! i) @ chunk)"
  have "handle_client_data s i (Data chunk) = process_buffer ?s i"
    using assms False by (intro handle_client_data_Data) auto
  also have "\<dots> = Inr (remove_client ?s i)"
    using assms by (intro process_buffer_overflow) auto
  finally show ?thesis .
qed

text \<open>
  C7. A connected session whose buffer holds no newline receives bytes, again without a
  newline, that bring the buffer to exactly \<^verbatim>\<open>BUF_SIZE\<close> = 1024 bytes. The call of
  \<^verbatim>\<open>handle_client_data\<close> that reads them closes the session's socket (the first new event
  is \<^verbatim>\<open>close\<close> of its descriptor; if the session had registered, the Disconnect frame to
  the remaining sessions follows and nothing else), and empties its slot: descriptor -1,
  buffer length 0, no username. Every other slot of the table is exactly as before. The
  slot can be acquired again: the scan of \<^verbatim>\<open>accept_client\<close> finds an empty slot at or
  before it, and when no earlier slot is empty the next accepted connection gets this
  very slot.
\<close>

theorem overflow_tears_down:
  assumes "i < max_clients s" and "fd (clients s ! i) \<noteq> -1"
    and "NL \<notin> set (buf (clients s ! i))" and "NL \<notin> set chunk"
    and "len (clients s ! i) + length chunk = BUF_SIZE"
    and "new_fd \<noteq> -1"
  shows "\<exists>s'. handle_client_data s i (Data chunk) = Inr s'
     \<and> clients s' = (clients s)[i := (clients s ! i)\<lparr>fd := -1, buf := [], has_username := False\<rparr>]
     \<and> events s' = events s @ Close (fd (clients s ! i))
          # (if has_username (clients s ! i)
             then send_all (clients s') (disconnect_msg (addr (clients s ! i)) (username (clients s ! i)))
             else [])
     \<and> (\<forall>j < max_clients s. j \<noteq> i \<longrightarrow> clients s' ! j = clients s ! j)
     \<and> (\<exists>k \<le> i. find_slot (clients s') = Some k)
     \<and> ((\<forall>k < i. fd (clients s ! k) \<noteq> -1) \<longrightarrow>
          find_slot (clients s') = Some i
          \<and> fd (clients (accept_client s' new_fd remote_addr 0) ! i) = new_fd)"
proof -
  let ?cli = "clients s ! i"
  let ?s0 = "set_buf s i (buf ?cli @ chunk)"
  let ?s' = "remove_client ?s0 i"
  have live: "fd (clients ?s0 ! i) \<noteq> -1" using assms(1,2) by simp
  have run: "handle_client_data s i (Data chunk) = Inr ?s'"
    using assms(1-5) by (rule handle_client_data_overflow)
  have cl: "clients ?s' = (clients s)[i := ?cli\<lparr>fd := -1, buf := [], has_username := False\<rparr>]"
    using assms(1) by (simp add: remove_client_clients[OF live])
  have ev: "events ?s' = events s @ Close (fd ?cli)
          # (if has_username ?cli
             then send_all (clients ?s') (disconnect_msg (addr ?cli) (username ?cli))
             else [])"
    using assms(1) remove_client_events[OF live] by simp
  have others: "\<forall>j < max_clients s. j \<noteq> i \<longrightarrow> clients ?s' ! j = clients s ! j"
    unfolding cl by simp
  have empty: "i < length (clients ?s')" "fd (clients ?s' ! i) = -1"
    unfolding cl using assms(1) by simp_all
  then have some: "\<exists>k \<le> i. find_slot (clients ?s') = Some k"
    by (rule find_slot_exists)
  have reuse: "find_slot (clients ?s') = Some i
          \<and> fd (clients (accept_client ?s' new_fd remote_addr 0) ! i) = new_fd"
    if "\<forall>k < i. fd (clients s ! k) \<noteq> -1"
  proof -
    have "\<forall>k < i. fd (clients ?s' ! k) \<noteq> -1"
      using that others assms(1) by auto
    with empty have f: "find_slot (clients ?s') = Some i"
      by (rule find_slot_first)
    then show ?thesis
      using assms(6) empty(1) by (simp add: accept_client_def)
  qed
  show ?thesis
    using run cl ev others some reuse by (intro exI[of _ ?s']) blast
qed

theorem overflow_tears_down_witness:
  "handle_client_data lobby 1 (Data (replicate 1024 65))
     = Inr \<lparr>clients = [guest, bob\<lparr>fd := -1, has_username := False\<rparr>, empty_slot],
            events = [Close 5, Send 4 [1, 127, 0, 0, 2, 0, 81, 3, 98, 111, 98, 10]]\<rparr>
   \<and> find_slot [guest, bob\<lparr>fd := -1, has_username := False\<rparr>, empty_slot] = Some 1
   \<and> fd (clients (accept_client
          \<lparr>clients = [guest, bob\<lparr>fd := -1, has_username := False\<rparr>, empty_slot],
           events = [Close 5, Send 4 [1, 127, 0, 0, 2, 0, 81, 3, 98, 111, 98, 10]]\<rparr> 7 peer1 0) ! 1) = 7"
proof -
  let ?t = "[guest, bob\<lparr>fd := -1, has_username := False\<rparr>, empty_slot]"
  have d: "disconnect_msg (addr bob) (username bob) = [1, 127, 0, 0, 2, 0, 81, 3, 98, 111, 98, 10]"
    by (simp add: disconnect_msg_def frame_header_c_string strlen_def c_string_def
        u32_bytes_def u16_bytes_def bob_def empty_slot_def peer2_def)
  have c: "clients lobby ! 1 = bob" "max_clients lobby = 3" "events lobby = []"
    "(clients lobby)[1 := bob\<lparr>fd := -1, buf := [], has_username := False\<rparr>] = ?t"
    by (simp_all add: lobby_def bob_def empty_slot_def)
  have b: "fd bob = 5" "buf bob = []" "has_username bob" "fd guest = 4"
    by (simp_all add: bob_def guest_def empty_slot_def)
  obtain s' where run: "handle_client_data lobby 1 (Data (replicate 1024 65)) = Inr s'"
    and cl: "clients s' = ?t"
    and ev: "events s' = [Close 5] @ send_all (clients s') [1, 127, 0, 0, 2, 0, 81, 3, 98, 111, 98, 10]"
    and slot: "find_slot (clients s') = Some 1"
    and acc: "fd (clients (accept_client s' 7 peer1 0) ! 1) = 7"
    using overflow_tears_down[of 1 lobby "replicate 1024 65" 7 peer1]
    unfolding c b d by (auto simp: less_Suc_eq lobby_def b)
  have "events s' = [Close 5, Send 4 [1, 127, 0, 0, 2, 0, 81, 3, 98, 111, 98, 10]]"
    unfolding ev cl by (simp add: guest_def bob_def empty_slot_def)
  with cl have "s' = \<lparr>clients = ?t, events = [Close 5, Send 4 [1, 127, 0, 0, 2, 0, 81, 3, 98, 111, 98, 10]]\<rparr>"
    by (cases s') simp
  then show ?thesis using run slot acc cl by simp
qed

section \<open>C2: fragmentation\<close>

lemma set_buf_set_buf:
  "i < max_clients s \<Longrightarrow> set_buf (set_buf s i b) i b' = set_buf s i b'"
  by simp

lemma handle_client_data_partial:
  assumes "i < max_clients s" "fd (clients s ! i) \<noteq> -1" "chunk \<noteq> []"
    "NL \<notin> set (buf (clients s ! i))" "NL \<notin> set chunk"
    "len (clients s ! i) + length chunk < BUF_SIZE"
  shows "handle_client_data s i (Data chunk) = Inr (set_buf s i (buf (clients s ! i) @ chunk))"
proof -
  let ?s = "set_buf s i (buf (clients s ! i) @ chunk)"
  have "handle_client_data s i (Data chunk) = process_buffer ?s i"
    using assms by (intro handle_client_data_Data) auto
  also have "\<dots> = Inr ?s"
    using assms by (intro process_buffer_no_newline) auto
  finally show ?thesis .
qed

lemma handle_client_data_completing:
  assumes "i < max_clients s" "fd (clients s ! i) \<noteq> -1" "chunk \<noteq> []"
    "buf (clients s ! i) @ chunk = body @ [NL]" "NL \<notin> set body" "length body + 1 \<le> BUF_SIZE"
  shows "handle_client_data s i (Data chunk) =
     (case process_message (set_buf s i (body @ [NL])) i (length body + 1) of
        Inl e \<Rightarrow> Inl e
      | Inr s1 \<Rightarrow> Inr (if fd (clients s1 ! i) = -1 then s1 else set_buf s1 i []))"
proof -
  let ?s0 = "set_buf s i []"
  have len: "len (clients s ! i) + length chunk = length body + 1"
    using arg_cong[OF assms(4), of length] by simp
  have "handle_client_data s i (Data chunk) = process_buffer (set_buf s i (body @ [NL])) i"
    using assms(2,3,6) len handle_client_data_Data[of s i chunk] by (simp add: assms(4))
  also have "\<dots> = handle_client_data ?s0 i (Data (body @ [NL]))"
    using assms(1,2,6) handle_client_data_Data[of ?s0 i "body @ [NL]"] by simp
  also have "\<dots> =
     (case process_message (set_buf ?s0 i (body @ [NL])) i (length body + 1) of
        Inl e \<Rightarrow> Inl e
      | Inr s1 \<Rightarrow> Inr (if fd (clients s1 ! i) = -1 then s1 else set_buf s1 i []))"
    using assms by (intro handle_single_frame) auto
  finally show ?thesis using assms(1) by (simp add: set_buf_set_buf)
qed

lemma reads_frame:
  assumes "i < max_clients s" "fd (clients s ! i) \<noteq> -1"
    "buf (clients s ! i) @ concat chunks = body @ [NL]" "[] \<notin> set chunks"
    "NL \<notin> set body" "length body + 1 \<le> BUF_SIZE" "chunks \<noteq> []"
  shows "reads s i chunks =
     (case process_message (set_buf s i (body @ [NL])) i (length body + 1) of
        Inl e \<Rightarrow> Inl e
      | Inr s1 \<Rightarrow> Inr (if fd (clients s1 ! i) = -1 then s1 else set_buf s1 i []))"
  using assms
proof (induction chunks arbitrary: s)
  case Nil
  then show ?case by simp
next
  case (Cons c cs)
  let ?p = "buf (clients s ! i)"
  have c: "c \<noteq> []" using Cons.prems(4) by auto
  show ?case
  proof (cases "cs = []")
    case True
    then have "?p @ c = body @ [NL]" using Cons.prems(3) by simp
    then have "handle_client_data s i (Data c) =
       (case process_message (set_buf s i (body @ [NL])) i (length body + 1) of
          Inl e \<Rightarrow> Inl e
        | Inr s1 \<Rightarrow> Inr (if fd (clients s1 ! i) = -1 then s1 else set_buf s1 i []))"
      using Cons.prems c by (intro handle_client_data_completing) auto
    then show ?thesis using True by (simp split: sum.splits)
  next
    case False
    then have tail: "concat cs \<noteq> []" using Cons.prems(4) by (cases cs) auto
    have eq: "(?p @ c) @ concat cs = body @ [NL]" using Cons.prems(3) by simp
    then obtain zs where zs: "body = (?p @ c) @ zs"
      using tail by (metis append_butlast_last_id butlast_append butlast_snoc)
    have nonl: "NL \<notin> set ?p" "NL \<notin> set c" using Cons.prems(5) zs by auto
    have "length (?p @ c) + length (concat cs) = length body + 1"
      using arg_cong[OF eq, of length] by simp
    moreover have "0 < length (concat cs)" using tail by blast
    ultimately have short: "len (clients s ! i) + length c < BUF_SIZE"
      using Cons.prems(6) by (simp del: length_concat length_greater_0_conv)
    let ?s = "set_buf s i (?p @ c)"
    have step: "handle_client_data s i (Data c) = Inr ?s"
      using Cons.prems(1,2) c nonl short by (intro handle_client_data_partial) auto
    have "reads ?s i cs =
       (case process_message (set_buf ?s i (body @ [NL])) i (length body + 1) of
          Inl e \<Rightarrow> Inl e
        | Inr s1 \<Rightarrow> Inr (if fd (clients s1 ! i) = -1 then s1 else set_buf s1 i []))"
      using Cons.prems False by (intro Cons.IH) auto
    then show ?thesis using step Cons.prems(1) by (simp add: set_buf_set_buf)
  qed
qed

text \<open>
  C2. Let the bytes \<open>body\<close> followed by a newline be one complete frame (no newline in
  \<open>body\<close>) that the receive buffer can hold (at most \<^verbatim>\<open>BUF_SIZE\<close> bytes), and let it
  arrive on a connected session with an empty buffer, split in any way into non-empty
  chunks returned by successive reads. Then the result of the reads is the same for
  every split: \<^verbatim>\<open>process_message\<close> is called exactly once, with the buffer holding exactly
  the bytes of the frame and \<^verbatim>\<open>msg_len\<close> their number, and the buffer is empty afterwards
  (or the session was closed by that one call). In particular every split gives the result
  of delivering the frame in one read.
\<close>

theorem fragmentation_invariance:
  assumes "i < max_clients s" and "fd (clients s ! i) \<noteq> -1" and "buf (clients s ! i) = []"
    and "NL \<notin> set body" and "length body + 1 \<le> BUF_SIZE"
    and "concat chunks = body @ [NL]" and "[] \<notin> set chunks"
  shows "reads s i chunks =
     (case process_message (set_buf s i (body @ [NL])) i (length body + 1) of
        Inl e \<Rightarrow> Inl e
      | Inr s1 \<Rightarrow> Inr (if fd (clients s1 ! i) = -1 then s1 else set_buf s1 i []))
     \<and> reads s i chunks = handle_client_data s i (Data (body @ [NL]))"
proof -
  have ne: "chunks \<noteq> []" using assms(6) by auto
  have split: "reads s i chunks =
     (case process_message (set_buf s i (body @ [NL])) i (length body + 1) of
        Inl e \<Rightarrow> Inl e
      | Inr s1 \<Rightarrow> Inr (if fd (clients s1 ! i) = -1 then s1 else set_buf s1 i []))"
    using assms ne by (intro reads_frame) auto
  moreover have "handle_client_data s i (Data (body @ [NL])) =
     (case process_message (set_buf s i (body @ [NL])) i (length body + 1) of
        Inl e \<Rightarrow> Inl e
      | Inr s1 \<Rightarrow> Inr (if fd (clients s1 ! i) = -1 then s1 else set_buf s1 i []))"
    using assms(1-5) by (rule handle_single_frame)
  ultimately show ?thesis by simp
qed

theorem fragmentation_invariance_witness:
  "reads lobby 1 [[0], [104, 105], [10]]
     = Inr (lobby\<lparr>events := [Send 4 [0, 127, 0, 0, 2, 0, 81, 3, 98, 111, 98, 104, 105, 10],
                             Send 5 [0, 127, 0, 0, 2, 0, 81, 3, 98, 111, 98, 104, 105, 10]]\<rparr>)
   \<and> reads lobby 1 [[0, 104, 105], [10]] = reads lobby 1 [[0], [104, 105], [10]]
   \<and> reads lobby 1 [[0, 104, 105, 10]] = reads lobby 1 [[0], [104, 105], [10]]"
proof -
  have pre: "1 < max_clients lobby" "fd (clients lobby ! 1) \<noteq> -1" "buf (clients lobby ! 1) = []"
    by (simp_all add: lobby_def bob_def empty_slot_def)
  have "reads lobby 1 chunks = handle_client_data lobby 1 (Data ([0, 104, 105] @ [NL]))"
    if "concat chunks = [0, 104, 105] @ [NL]" "[] \<notin> set chunks" for chunks
    by (rule fragmentation_invariance[THEN conjunct2]) (use pre that in simp_all)
  from this[of "[[0], [104, 105], [10]]"] this[of "[[0, 104, 105], [10]]"]
    this[of "[[0, 104, 105, 10]]"]
  show ?thesis using lobby_bob_says_hi by simp
qed

section \<open>C1: registration followed by a chat message\<close>

lemma process_message_register:
  assumes "\<not> has_username (clients s ! i)" "buf (clients s ! i) ! 0 = MSG_TYPE_USERNAME"
    "msg_len > 2" "unat (buf (clients s ! i) ! 1) = n" "0 < n" "n < MAX_USERNAME_LEN"
    "2 + n \<le> msg_len"
  shows "process_message s i msg_len =
     Inr (broadcast_join
       (s\<lparr>clients := (clients s)[i := (clients s ! i)\<lparr>
            username := take n (drop 2 (buf (clients s ! i))) @ [0] @ drop (n + 1) (username (clients s ! i)),
            has_username := True\<rparr>]\<rparr>) i)"
  using assms by (simp add: process_message_def Let_def)

lemma map_fd_update: "fd c = fd (cs ! i) \<Longrightarrow> map fd (cs[i := c]) = map fd cs"
  by (cases "i < length cs") (simp_all add: map_update list_update_same_conv list_update_beyond)

lemma frame_header_alice:
  "frame_header t a (alice @ 0 # rest)
   = [t] @ u32_bytes (sin_addr a) @ u16_bytes (sin_port a) @ [5] @ alice"
proof -
  have c: "c_string (alice @ 0 # rest) = alice"
    by (rule c_string_terminated) (simp add: alice_def)
  then have "strlen (alice @ 0 # rest) = 5"
    by (simp add: strlen_def alice_def)
  then show ?thesis using c by (simp add: frame_header_c_string)
qed

lemma join_msg_alice:
  "username c = alice @ 0 # rest \<Longrightarrow> join_msg c = join_alice (addr c)"
  by (simp add: join_msg_def join_alice_def frame_header_alice)

lemma chat_msg_alice_hello:
  "username c = alice @ 0 # rest \<Longrightarrow> buf c = chat_hello @ pending \<Longrightarrow>
   chat_msg c 7 = chat_alice_hello (addr c)"
  by (simp add: chat_msg_def chat_alice_hello_def frame_header_alice chat_hello_def hello_def)

text \<open>The state once alice has registered, with \<open>b\<close> left in her buffer.\<close>

lemma register_alice_step:
  assumes "i < max_clients s" "\<not> has_username (clients s ! i)"
    "buf (clients s ! i) = register_alice @ pending"
  shows "process_message s i 8 =
     Inr (s\<lparr>clients := (clients s)[i := (clients s ! i)\<lparr>
              username := alice @ 0 # drop 6 (username (clients s ! i)), has_username := True\<rparr>],
            events := events s @ send_all (clients s) (join_alice (addr (clients s ! i)))\<rparr>)"
proof -
  let ?cli = "clients s ! i"
  let ?cli' = "?cli\<lparr>username := alice @ 0 # drop 6 (username ?cli), has_username := True\<rparr>"
  let ?s1 = "s\<lparr>clients := (clients s)[i := ?cli']\<rparr>"
  have b: "buf ?cli ! 0 = MSG_TYPE_USERNAME" "unat (buf ?cli ! 1) = 5"
    "take 5 (drop 2 (buf ?cli)) = alice"
    using assms(3) by (simp_all add: register_alice_def alice_def)
  have "process_message s i 8 = Inr (broadcast_join ?s1 i)"
    using process_message_register[of s i 8 5] assms(2) b by simp
  moreover have "join_msg (clients ?s1 ! i) = join_alice (addr ?cli)"
    using assms(1) join_msg_alice[of ?cli'] by simp
  moreover have "send_all (clients ?s1) msg = send_all (clients s) msg" for msg
    by (rule send_all_fd_cong) (simp add: map_fd_update)
  moreover have "join_alice (addr ?cli) \<noteq> []" by (simp add: join_alice_def)
  ultimately show ?thesis
    by (simp add: broadcast_join_def broadcast_message_def)
qed

lemma chat_hello_step:
  assumes "i < max_clients s" "has_username (clients s ! i)"
    "username (clients s ! i) = alice @ 0 # rest" "buf (clients s ! i) = chat_hello @ pending"
  shows "process_message s i 7 =
     Inr (s\<lparr>events := events s @ send_all (clients s) (chat_alice_hello (addr (clients s ! i)))\<rparr>)"
proof -
  have m: "chat_msg (clients s ! i) 7 = chat_alice_hello (addr (clients s ! i))"
    using assms(3,4) by (rule chat_msg_alice_hello)
  have "buf (clients s ! i) ! 0 = MSG_TYPE_CHAT" using assms(4) by (simp add: chat_hello_def)
  moreover have "length (chat_alice_hello (addr (clients s ! i))) \<le> BUF_SIZE + 8"
    by (simp add: chat_alice_hello_def alice_def hello_def u32_bytes_def u16_bytes_def)
  ultimately show ?thesis
    using process_message_chat[of s i 7] assms(2) m by simp
qed

text \<open>
  C1. A connected session that has not registered and has nothing pending in its buffer
  delivers \<^verbatim>\<open>\x03\x05alice\n\<close> followed by \<^verbatim>\<open>\x00hello\n\<close>, in one read or in two. The
  server then makes, in this order, one send of the Join frame
  \<^verbatim>\<open>[2][ip:4][port:2][5]alice\n\<close> to every connected slot and one send of the Chat frame
  \<^verbatim>\<open>[0][ip:4][port:2][5]alice hello\n\<close> to every connected slot, with the sender's address
  in both, and nothing else. So every other connected session (registered or not), the
  descriptors of connected slots being distinct, receives exactly the Join frame and then
  the Chat frame.
\<close>

theorem register_then_chat:
  assumes "i < max_clients s" and "fd (clients s ! i) \<noteq> -1"
    and "\<not> has_username (clients s ! i)" and "buf (clients s ! i) = []"
  shows "\<exists>s'. handle_client_data s i (Data (register_alice @ chat_hello)) = Inr s'
     \<and> reads s i [register_alice, chat_hello] = Inr s'
     \<and> events s' = events s
          @ send_all (clients s) (join_alice (addr (clients s ! i)))
          @ send_all (clients s) (chat_alice_hello (addr (clients s ! i)))
     \<and> (\<forall>j < max_clients s.
          j \<noteq> i \<and> connected (clients s ! j) \<and> distinct (map fd (filter connected (clients s)))
          \<longrightarrow> sent_to (fd (clients s ! j)) (events s')
              = sent_to (fd (clients s ! j)) (events s)
                @ [join_alice (addr (clients s ! i)), chat_alice_hello (addr (clients s ! i))])"
proof -
  let ?cli = "clients s ! i"
  let ?J = "join_alice (addr ?cli)"
  let ?C = "chat_alice_hello (addr ?cli)"
  let ?U = "alice @ 0 # drop 6 (username ?cli)"
  define s1 where "s1 b = s\<lparr>clients := (clients s)[i := ?cli\<lparr>buf := b, username := ?U, has_username := True\<rparr>],
                             events := events s @ send_all (clients s) ?J\<rparr>" for b
  define s2 where "s2 b = s\<lparr>clients := (clients s)[i := ?cli\<lparr>buf := b, username := ?U, has_username := True\<rparr>],
                             events := events s @ send_all (clients s) ?J @ send_all (clients s) ?C\<rparr>" for b
  have reorder [simp]:
    "c\<lparr>username := u, has_username := h, buf := b\<rparr> = c\<lparr>buf := b, username := u, has_username := h\<rparr>"
    "t\<lparr>events := e, clients := cs\<rparr> = t\<lparr>clients := cs, events := e\<rparr>"
    for c :: client_t and t :: server and u h b e cs
    by (cases c, simp) (cases t, simp)
  have fds: "send_all ((clients s)[i := c]) msg = send_all (clients s) msg" if "fd c = fd ?cli" for c msg
    using that by (intro send_all_fd_cong map_fd_update)
  have s1_facts: "i < max_clients (s1 b)" "fd (clients (s1 b) ! i) \<noteq> -1" "buf (clients (s1 b) ! i) = b"
    "has_username (clients (s1 b) ! i)" "set_buf (s1 b) i b' = s1 b'"
    "username (clients (s1 b) ! i) = alice @ 0 # drop 6 (username ?cli)"
    "addr (clients (s1 b) ! i) = addr ?cli" for b b'
    using assms(1,2) by (simp_all add: s1_def)
  have s2_facts: "i < max_clients (s2 b)" "fd (clients (s2 b) ! i) \<noteq> -1" "buf (clients (s2 b) ! i) = b"
    "set_buf (s2 b) i b' = s2 b'" for b b'
    using assms(1,2) by (simp_all add: s2_def)
  have frames: "register_alice @ p = ([MSG_TYPE_USERNAME, 5] @ alice) @ NL # p"
    "chat_hello @ p = ([MSG_TYPE_CHAT] @ hello) @ NL # p"
    "NL \<notin> set ([MSG_TYPE_USERNAME, 5] @ alice)" "NL \<notin> set ([MSG_TYPE_CHAT] @ hello)"
    "length ([MSG_TYPE_USERNAME, 5] @ alice) + 1 = 8" "length ([MSG_TYPE_CHAT] @ hello) + 1 = 7"
    "length (register_alice @ chat_hello) = 15" for p
    by (simp_all add: register_alice_def chat_hello_def alice_def hello_def)
  have A: "process_message (set_buf s i (register_alice @ p)) i 8 = Inr (s1 (register_alice @ p))" for p
  proof -
    let ?s = "set_buf s i (register_alice @ p)"
    have "process_message ?s i 8 =
      Inr (?s\<lparr>clients := (clients ?s)[i := (clients ?s ! i)\<lparr>
              username := alice @ 0 # drop 6 (username (clients ?s ! i)), has_username := True\<rparr>],
            events := events ?s @ send_all (clients ?s) (join_alice (addr (clients ?s ! i)))\<rparr>)"
      using assms(1,3) by (intro register_alice_step[where pending = p]) auto
    then show ?thesis using assms(1) by (simp add: s1_def fds)
  qed
  have B: "process_message (s1 (chat_hello @ p)) i 7 = Inr (s2 (chat_hello @ p))" for p
  proof -
    let ?s = "s1 (chat_hello @ p)"
    have "process_message ?s i 7 =
      Inr (?s\<lparr>events := events ?s @ send_all (clients ?s) (chat_alice_hello (addr (clients ?s ! i)))\<rparr>)"
      using s1_facts[of "chat_hello @ p"]
      by (intro chat_hello_step[where pending = p and rest = "drop 6 (username ?cli)"]) auto
    then show ?thesis unfolding s1_facts by (simp add: s1_def s2_def fds)
  qed
  have idle: "process_buffer (s2 []) i = Inr (s2 [])"
    using s2_facts[of "[]"] by (intro process_buffer_no_newline) auto
  have chat: "process_buffer (s1 chat_hello) i = Inr (s2 [])"
  proof -
    have "process_buffer (s1 (chat_hello @ [])) i =
      (case process_message (s1 (chat_hello @ [])) i (length ([MSG_TYPE_CHAT] @ hello) + 1) of
         Inl e \<Rightarrow> Inl e
       | Inr s' \<Rightarrow> if fd (clients s' ! i) = -1 then Inr s'
                  else process_buffer (set_buf s' i []) i)"
      using s1_facts[of "chat_hello @ []"] frames(2)[of "[]"] frames(4)
      by (intro process_buffer_frame) auto
    then show ?thesis
      unfolding frames(6) B using s2_facts idle by simp
  qed
  have one: "handle_client_data s i (Data (register_alice @ chat_hello)) = Inr (s2 [])"
  proof -
    let ?s = "set_buf s i (register_alice @ chat_hello)"
    have "handle_client_data s i (Data (register_alice @ chat_hello)) = process_buffer ?s i"
      using assms(2,4) frames(7) handle_client_data_Data[of s i "register_alice @ chat_hello"]
      by (simp add: register_alice_def)
    also have "\<dots> =
      (case process_message ?s i (length ([MSG_TYPE_USERNAME, 5] @ alice) + 1) of
         Inl e \<Rightarrow> Inl e
       | Inr s' \<Rightarrow> if fd (clients s' ! i) = -1 then Inr s'
                  else process_buffer (set_buf s' i chat_hello) i)"
      using assms(1,2) frames(1)[of chat_hello] frames(3)
      by (intro process_buffer_frame) auto
    also have "\<dots> = Inr (s2 [])"
      unfolding frames(5) A using s1_facts chat by simp
    finally show ?thesis .
  qed
  have first: "handle_client_data s i (Data register_alice) = Inr (s1 [])"
  proof -
    have "handle_client_data s i (Data (([MSG_TYPE_USERNAME, 5] @ alice) @ [NL])) =
      (case process_message (set_buf s i (([MSG_TYPE_USERNAME, 5] @ alice) @ [NL])) i
              (length ([MSG_TYPE_USERNAME, 5] @ alice) + 1) of
         Inl e \<Rightarrow> Inl e
       | Inr s' \<Rightarrow> Inr (if fd (clients s' ! i) = -1 then s' else set_buf s' i []))"
      using assms frames(3) by (intro handle_single_frame) (auto simp: alice_def)
    then show ?thesis
      unfolding frames(1)[of "[]", symmetric] frames(5) using A[of "[]"] s1_facts by simp
  qed
  have second: "handle_client_data (s1 []) i (Data chat_hello) = Inr (s2 [])"
  proof -
    have "handle_client_data (s1 []) i (Data (([MSG_TYPE_CHAT] @ hello) @ [NL])) =
      (case process_message (set_buf (s1 []) i (([MSG_TYPE_CHAT] @ hello) @ [NL])) i
              (length ([MSG_TYPE_CHAT] @ hello) + 1) of
         Inl e \<Rightarrow> Inl e
       | Inr s' \<Rightarrow> Inr (if fd (clients s' ! i) = -1 then s' else set_buf s' i []))"
      using s1_facts[of "[]"] frames(4) by (intro handle_single_frame) (auto simp: hello_def)
    then show ?thesis
      unfolding frames(2)[of "[]", symmetric] frames(6) s1_facts using B[of "[]"] s2_facts by simp
  qed
  have two: "reads s i [register_alice, chat_hello] = Inr (s2 [])"
    using first second by simp
  have ev: "events (s2 []) = events s @ send_all (clients s) ?J @ send_all (clients s) ?C"
    by (simp add: s2_def)
  have per: "sent_to (fd (clients s ! j)) (events (s2 []))
             = sent_to (fd (clients s ! j)) (events s) @ [?J, ?C]"
    if "j < max_clients s" "connected (clients s ! j)" "distinct (map fd (filter connected (clients s)))" for j
  proof -
    have "clients s ! j \<in> set (clients s)" using that(1) by simp
    then have "sent_to (fd (clients s ! j)) (send_all (clients s) msg) = [msg]" for msg
      using that(2,3) by (intro sent_to_send_all_one) auto
    then show ?thesis unfolding ev by simp
  qed
  show ?thesis
    using one two ev per by (intro exI[of _ "s2 []"]) blast
qed

theorem register_then_chat_witness:
  "\<exists>s'. handle_client_data lobby 0 (Data (register_alice @ chat_hello)) = Inr s'
     \<and> reads lobby 0 [register_alice, chat_hello] = Inr s'
     \<and> events s' =
         [Send 4 [2, 127, 0, 0, 1, 0, 80, 5, 97, 108, 105, 99, 101, 10],
          Send 5 [2, 127, 0, 0, 1, 0, 80, 5, 97, 108, 105, 99, 101, 10],
          Send 4 [0, 127, 0, 0, 1, 0, 80, 5, 97, 108, 105, 99, 101, 104, 101, 108, 108, 111, 10],
          Send 5 [0, 127, 0, 0, 1, 0, 80, 5, 97, 108, 105, 99, 101, 104, 101, 108, 108, 111, 10]]
     \<and> sent_to 5 (events s') =
         [[2, 127, 0, 0, 1, 0, 80, 5, 97, 108, 105, 99, 101, 10],
          [0, 127, 0, 0, 1, 0, 80, 5, 97, 108, 105, 99, 101, 104, 101, 108, 108, 111, 10]]"
proof -
  have pre: "0 < max_clients lobby" "fd (clients lobby ! 0) \<noteq> -1"
    "\<not> has_username (clients lobby ! 0)" "buf (clients lobby ! 0) = []"
    by (simp_all add: lobby_def guest_def empty_slot_def)
  have j: "join_alice (addr (clients lobby ! 0)) = [2, 127, 0, 0, 1, 0, 80, 5, 97, 108, 105, 99, 101, 10]"
    by (simp add: join_alice_def lobby_def guest_def peer1_def alice_def u32_bytes_def u16_bytes_def)
  have c: "chat_alice_hello (addr (clients lobby ! 0))
           = [0, 127, 0, 0, 1, 0, 80, 5, 97, 108, 105, 99, 101, 104, 101, 108, 108, 111, 10]"
    by (simp add: chat_alice_hello_def lobby_def guest_def peer1_def alice_def hello_def
        u32_bytes_def u16_bytes_def)
  have bob: "1 < max_clients lobby" "connected (clients lobby ! 1)" "fd (clients lobby ! 1) = 5"
    "distinct (map fd (filter connected (clients lobby)))" "events lobby = []"
    by (simp_all add: lobby_def connected_def guest_def bob_def empty_slot_def)
  have sends: "send_all (clients lobby) msg = [Send 4 msg, Send 5 msg]" for msg
    by (simp add: lobby_def guest_def bob_def empty_slot_def)
  obtain s' where "handle_client_data lobby 0 (Data (register_alice @ chat_hello)) = Inr s'"
    "reads lobby 0 [register_alice, chat_hello] = Inr s'"
    "events s' = events lobby
          @ send_all (clients lobby) (join_alice (addr (clients lobby ! 0)))
          @ send_all (clients lobby) (chat_alice_hello (addr (clients lobby ! 0)))"
    "sent_to (fd (clients lobby ! 1)) (events s')
              = sent_to (fd (clients lobby ! 1)) (events lobby)
                @ [join_alice (addr (clients lobby ! 0)), chat_alice_hello (addr (clients lobby ! 0))]"
    using register_then_chat[OF pre] bob(1,2,4) by force
  then show ?thesis
    unfolding j c bob sends by (intro exI[of _ s']) simp
qed

section \<open>The relay array can be overrun\<close>

text \<open>
  The error value is reached: a session registered with a username of 31 bytes sends a
  chat frame of 1024 bytes, and the relayed frame would take 8 + 31 + 1023 = 1062 bytes of
  the 1032 of \<^verbatim>\<open>broadcast_msg\<close>.
\<close>

lemma relay_overrun_reached:
  assumes "clients s ! i = bob\<lparr>username := replicate 31 65 @ [0],
                                  buf := MSG_TYPE_CHAT # replicate 1022 66 @ [NL]\<rparr>"
  shows "process_message s i 1024 = Inl RelayBufferOverrun"
proof -
  let ?cli = "clients s ! i"
  have c: "c_string (replicate 31 65 @ 0 # []) = replicate 31 65"
    by (rule c_string_terminated) simp
  then have u: "strlen (username ?cli) = 31"
    by (simp add: assms strlen_def)
  have "length (chat_msg ?cli 1024) = 1062"
    using u c by (simp add: chat_msg_def frame_header_c_string)
                 (simp add: assms u32_bytes_def u16_bytes_def)
  moreover have "has_username ?cli" "buf ?cli ! 0 = MSG_TYPE_CHAT"
    by (simp_all add: assms bob_def)
  ultimately show ?thesis
    by (simp add: process_message_def Let_def)
qed

section \<open>The invariant of the session table\<close>

lemma table_ok_update:
  "table_ok s \<Longrightarrow> slot_ok c \<Longrightarrow> table_ok (s\<lparr>clients := (clients s)[i := c]\<rparr>)"
  unfolding table_ok_def using set_update_subset_insert[of "clients s" i c] by auto

lemma table_ok_events [simp]: "table_ok (s\<lparr>events := es\<rparr>) = table_ok s"
  by (simp add: table_ok_def)

lemma table_ok_broadcast [simp]: "table_ok (broadcast_message s msg) = table_ok s"
  by (simp add: table_ok_def)

lemma table_ok_nth: "table_ok s \<Longrightarrow> i < max_clients s \<Longrightarrow> slot_ok (clients s ! i)"
  by (simp add: table_ok_def)

lemma table_ok_remove_client:
  assumes "table_ok s"
  shows "table_ok (remove_client s i)"
proof (cases "fd (clients s ! i) = -1")
  case True
  then show ?thesis using assms by (simp add: remove_client_def)
next
  case False
  let ?c = "(clients s ! i)\<lparr>fd := -1, buf := [], has_username := False\<rparr>"
  have "slot_ok ?c" by (simp add: slot_ok_def)
  with assms have "table_ok (s\<lparr>clients := (clients s)[i := ?c]\<rparr>)"
    by (rule table_ok_update)
  then show ?thesis using False
    by (simp add: remove_client_def Let_def table_ok_def)
qed

lemma table_ok_accept_client:
  assumes "table_ok s"
  shows "table_ok (accept_client s client_fd remote_addr nonblocking)"
proof (cases "find_slot (clients s)")
  case None
  then show ?thesis using assms by (simp add: accept_client_def)
next
  case (Some j)
  let ?c = "(clients s ! j)\<lparr>fd := client_fd, buf := [], addr := remote_addr, has_username := False\<rparr>"
  have "slot_ok ?c" by (simp add: slot_ok_def)
  with assms have "table_ok (s\<lparr>clients := (clients s)[j := ?c]\<rparr>)"
    by (rule table_ok_update)
  then show ?thesis using assms Some by (simp add: accept_client_def)
qed

lemma table_ok_process_message:
  assumes "table_ok s" "i < max_clients s" "fd (clients s ! i) \<noteq> -1"
    "process_message s i msg_len = Inr s'"
  shows "table_ok s'"
proof -
  let ?cli = "clients s ! i"
  have ok: "slot_ok ?cli" using assms(1,2) by (rule table_ok_nth)
  have reg: "table_ok (s\<lparr>clients := (clients s)[i := ?cli\<lparr>username := u, has_username := True\<rparr>]\<rparr>)" for u
    using assms(1) by (rule table_ok_update) (use ok assms(3) in \<open>simp add: slot_ok_def\<close>)
  show ?thesis
    using assms(1,4) reg table_ok_remove_client[OF assms(1), of i]
    by (auto simp: process_message_def broadcast_join_def Let_def split: if_splits)
qed

lemma process_message_Inl:
  assumes "process_message s i msg_len = Inl e"
  shows "has_username (clients s ! i) \<and> buf (clients s ! i) ! 0 = MSG_TYPE_CHAT
         \<and> BUF_SIZE + 8 < length (chat_msg (clients s ! i) msg_len)"
  using assms by (auto simp: process_message_def Let_def split: if_splits)

lemma table_ok_process_buffer:
  "table_ok s \<Longrightarrow> process_buffer s i = Inr s' \<Longrightarrow> table_ok s'"
proof (induction s i arbitrary: s' rule: process_buffer.induct)
  case (1 s i)
  let ?cli = "clients s ! i"
  show ?case
  proof (cases "i \<ge> max_clients s \<or> fd ?cli = -1")
    case True
    then have "process_buffer s i = Inr s"
      by (subst process_buffer.simps) (auto simp: Let_def)
    then show ?thesis using "1.prems" by simp
  next
    case False
    then have i: "i < max_clients s" and live: "fd ?cli \<noteq> -1" by auto
    show ?thesis
    proof (cases "memchr (buf ?cli) NL")
      case None
      then have "process_buffer s i = (if len ?cli = BUF_SIZE then Inr (remove_client s i) else Inr s)"
        using i live by (subst process_buffer.simps) (simp add: Let_def)
      then show ?thesis
        using "1.prems" table_ok_remove_client[OF "1.prems"(1), of i] by (auto split: if_splits)
    next
      case (Some k)
      show ?thesis
      proof (cases "process_message s i (k + 1)")
        case (Inl e)
        then have "process_buffer s i = Inl e"
          using i live Some by (subst process_buffer.simps) (simp add: Let_def)
        then show ?thesis using "1.prems" by simp
      next
        case (Inr s1)
        have ok1: "table_ok s1"
          using "1.prems"(1) i live Inr by (rule table_ok_process_message)
        show ?thesis
        proof (cases "fd (clients s1 ! i) = -1")
          case True
          then have "process_buffer s i = Inr s1"
            using i live Some Inr by (subst process_buffer.simps) (simp add: Let_def)
          then show ?thesis using "1.prems" ok1 by simp
        next
          case False
          let ?cli1 = "clients s1 ! i"
          let ?remaining = "len ?cli1 - (k + 1)"
          let ?b = "if ?remaining > 0 then take ?remaining (drop (k + 1) (buf ?cli1)) else []"
          let ?s2 = "s1\<lparr>clients := (clients s1)[i := ?cli1\<lparr>buf := ?b\<rparr>]\<rparr>"
          have i1: "i < max_clients s1" using i process_message_length[OF Inr] by simp
          have "slot_ok ?cli1" using ok1 i1 by (rule table_ok_nth)
          then have "slot_ok (?cli1\<lparr>buf := ?b\<rparr>)" by (auto simp: slot_ok_def)
          with ok1 have ok2: "table_ok ?s2" by (rule table_ok_update)
          have "process_buffer s i = process_buffer ?s2 i"
            using i live Some Inr False by (subst process_buffer.simps) (simp add: Let_def)
          then have run: "process_buffer ?s2 i = Inr s'" using "1.prems"(2) by simp
          have n: "\<not> max_clients s \<le> i" using i by simp
          show ?thesis
            using "1.IH"[OF n refl live Some refl Inr refl False refl ok2 run] .
        qed
      qed
    qed
  qed
qed

lemma table_ok_handle_client_data:
  assumes "table_ok s" "i < max_clients s" "handle_client_data s i r = Inr s'"
  shows "table_ok s'"
proof (cases "fd (clients s ! i) = -1")
  case True
  then show ?thesis using assms by (simp add: handle_client_data_def)
next
  case False
  let ?cli = "clients s ! i"
  have ok: "slot_ok ?cli" using assms(1,2) by (rule table_ok_nth)
  show ?thesis
  proof (cases r)
    case (Data avail)
    let ?chunk = "take (BUF_SIZE - len ?cli) avail"
    show ?thesis
    proof (cases "?chunk = []")
      case True
      then have "handle_client_data s i r = Inr (remove_client s i)"
        using False Data by (simp add: handle_client_data_def Let_def)
      then show ?thesis using assms table_ok_remove_client[OF assms(1), of i] by simp
    next
      case nonempty: False
      let ?s0 = "s\<lparr>clients := (clients s)[i := ?cli\<lparr>buf := buf ?cli @ ?chunk\<rparr>]\<rparr>"
      have "slot_ok (?cli\<lparr>buf := buf ?cli @ ?chunk\<rparr>)"
        using ok False by (auto simp: slot_ok_def)
      with assms(1) have ok0: "table_ok ?s0" by (rule table_ok_update)
      have "handle_client_data s i r = process_buffer ?s0 i"
        using False Data nonempty by (simp add: handle_client_data_def Let_def)
      then show ?thesis using assms(3) ok0 table_ok_process_buffer by simp
    qed
  next
    case WouldBlock
    then show ?thesis using assms False by (simp add: handle_client_data_def)
  next
    case ReadError
    then have "handle_client_data s i r = Inr (remove_client s i)"
      using False by (simp add: handle_client_data_def)
    then show ?thesis using assms table_ok_remove_client[OF assms(1), of i] by simp
  qed
qed

lemma process_buffer_closed:
  assumes "i < max_clients s" "fd (clients s ! i) \<noteq> -1"
    "memchr (buf (clients s ! i)) NL = Some k"
    "process_message s i (k + 1) = Inr s1" "fd (clients s1 ! i) = -1"
  shows "process_buffer s i = Inr s1"
  using assms by (subst process_buffer.simps) (simp add: Let_def)

text \<open>
  Write \<open>table_ok\<close> for: every slot's buffer holds at most \<^verbatim>\<open>BUF_SIZE\<close> = 1024 bytes,
  and every empty slot (descriptor -1) has buffer length 0 and no username. (That the
  length is not negative needs no proof here: it is the length of a list, and the C
  subtraction \<^verbatim>\<open>cli->len - msg_len\<close> stays at or above 0 by \<open>memchr_bound\<close>.) From a table
  that satisfies it, accepting a connection and removing a client end in a table that
  satisfies it, and so do processing a frame of a connected session and handling a read
  when they end in a table at all. Their other exit is the error of the relay array,
  which \<^verbatim>\<open>process_message\<close> reaches only in the chat branch with a relayed frame longer
  than \<^verbatim>\<open>BUF_SIZE + 8\<close>. And when the frame being processed closes the session, the loop
  of \<^verbatim>\<open>handle_client_data\<close> returns at once: the bytes that follow it in the buffer are
  not processed.
\<close>

lemma table_ok_preserved:
  assumes "table_ok s" and "i < max_clients s"
  shows "table_ok (accept_client s client_fd remote_addr nonblocking)
       \<and> table_ok (remove_client s i)
       \<and> (\<forall>s'. fd (clients s ! i) \<noteq> -1 \<and> process_message s i msg_len = Inr s' \<longrightarrow> table_ok s')
       \<and> (\<forall>e. process_message s i msg_len = Inl e \<longrightarrow>
              has_username (clients s ! i) \<and> buf (clients s ! i) ! 0 = MSG_TYPE_CHAT
              \<and> BUF_SIZE + 8 < length (chat_msg (clients s ! i) msg_len))
       \<and> (\<forall>s'. handle_client_data s i r = Inr s' \<longrightarrow> table_ok s')
       \<and> (\<forall>k s1. fd (clients s ! i) \<noteq> -1 \<and> memchr (buf (clients s ! i)) NL = Some k
              \<and> process_message s i (k + 1) = Inr s1 \<and> fd (clients s1 ! i) = -1
              \<longrightarrow> process_buffer s i = Inr s1)"
proof (intro conjI allI impI)
  show "table_ok (accept_client s client_fd remote_addr nonblocking)"
    using assms(1) by (rule table_ok_accept_client)
  show "table_ok (remove_client s i)"
    using assms(1) by (rule table_ok_remove_client)
next
  fix s'
  assume "fd (clients s ! i) \<noteq> -1 \<and> process_message s i msg_len = Inr s'"
  then show "table_ok s'"
    using assms table_ok_process_message by blast
next
  fix e
  assume e: "process_message s i msg_len = Inl e"
  show "has_username (clients s ! i)" "buf (clients s ! i) ! 0 = MSG_TYPE_CHAT"
    "BUF_SIZE + 8 < length (chat_msg (clients s ! i) msg_len)"
    using process_message_Inl[OF e] by simp_all
next
  fix s'
  assume "handle_client_data s i r = Inr s'"
  with assms show "table_ok s'" by (rule table_ok_handle_client_data)
next
  fix k s1
  assume "fd (clients s ! i) \<noteq> -1 \<and> memchr (buf (clients s ! i)) NL = Some k
          \<and> process_message s i (k + 1) = Inr s1 \<and> fd (clients s1 ! i) = -1"
  then show "process_buffer s i = Inr s1"
    using assms(2) process_buffer_closed by blast
qed

text \<open>
  The example: bob's buffer receives a Disconnect frame followed by a chat frame. The
  session is closed, the others get the Disconnect frame, and the chat frame is dropped.
\<close>

lemma lobby_bob_leaves:
  "handle_client_data lobby 1 (Data [MSG_TYPE_DISCONNECT, NL, MSG_TYPE_CHAT, 104, 105, NL])
     = Inr \<lparr>clients = [guest, bob\<lparr>fd := -1, has_username := False\<rparr>, empty_slot],
            events = [Close 5, Send 4 [1, 127, 0, 0, 2, 0, 81, 3, 98, 111, 98, 10]]\<rparr>"
proof -
  let ?b = "[MSG_TYPE_DISCONNECT, NL, MSG_TYPE_CHAT, 104, 105, NL]"
  let ?s = "set_buf lobby 1 ?b"
  let ?t = "\<lparr>clients = [guest, bob\<lparr>fd := -1, has_username := False\<rparr>, empty_slot],
            events = [Close 5, Send 4 [1, 127, 0, 0, 2, 0, 81, 3, 98, 111, 98, 10]]\<rparr>"
  have d: "disconnect_msg peer2 (98 # 111 # 98 # replicate 29 0) = [1, 127, 0, 0, 2, 0, 81, 3, 98, 111, 98, 10]"
    by (simp add: disconnect_msg_def frame_header_c_string strlen_def c_string_def
        u32_bytes_def u16_bytes_def peer2_def)
  have p: "process_message ?s 1 (1 + 1) = Inr ?t"
    by (simp add: process_message_def remove_client_def broadcast_message_def Let_def d
        lobby_def guest_def bob_def empty_slot_def)
  have "handle_client_data lobby 1 (Data ?b) = process_buffer ?s 1"
    using handle_client_data_Data[of lobby 1 ?b] by (simp add: lobby_def bob_def empty_slot_def)
  also have "\<dots> = Inr ?t"
    using p by (intro process_buffer_closed[where k = 1]) (simp_all add: lobby_def bob_def empty_slot_def)
  finally show ?thesis .
qed

lemma table_ok_preserved_example:
  "table_ok lobby
   \<and> table_ok (accept_client lobby 7 peer1 0)
   \<and> table_ok (remove_client lobby 1)
   \<and> handle_client_data lobby 1 (Data [MSG_TYPE_DISCONNECT, NL, MSG_TYPE_CHAT, 104, 105, NL])
       = Inr \<lparr>clients = [guest, bob\<lparr>fd := -1, has_username := False\<rparr>, empty_slot],
              events = [Close 5, Send 4 [1, 127, 0, 0, 2, 0, 81, 3, 98, 111, 98, 10]]\<rparr>
   \<and> table_ok \<lparr>clients = [guest, bob\<lparr>fd := -1, has_username := False\<rparr>, empty_slot],
                events = [Close 5, Send 4 [1, 127, 0, 0, 2, 0, 81, 3, 98, 111, 98, 10]]\<rparr>"
proof -
  have ok: "table_ok lobby"
    by (simp add: table_ok_def slot_ok_def lobby_def guest_def bob_def empty_slot_def)
  have i: "1 < max_clients lobby" by (simp add: lobby_def)
  show ?thesis
    using ok table_ok_preserved[OF ok i, of 7 peer1 0 _
        "Data [MSG_TYPE_DISCONNECT, NL, MSG_TYPE_CHAT, 104, 105, NL]"] lobby_bob_leaves
    by simp
qed

section \<open>C3: encoding and decoding of frames\<close>

lemma u32_roundtrip: "u32_of_bytes (u32_bytes w) = w"
proof (rule bit_word_eqI)
  fix n :: nat
  assume "n < LENGTH(32)"
  then consider "n < 8" | "8 \<le> n" "n < 16" | "16 \<le> n" "n < 24" | "24 \<le> n" "n < 32"
    by fastforce
  then show "bit (u32_of_bytes (u32_bytes w)) n = bit w n"
    by cases (auto simp add: u32_of_bytes_def u32_bytes_def bit_simps)
qed

lemma u16_roundtrip: "u16_of_bytes (u16_bytes w) = w"
proof (rule bit_word_eqI)
  fix n :: nat
  assume "n < LENGTH(16)"
  then consider "n < 8" | "8 \<le> n" "n < 16"
    by fastforce
  then show "bit (u16_of_bytes (u16_bytes w)) n = bit w n"
    by cases (auto simp add: u16_of_bytes_def u16_bytes_def bit_simps)
qed

lemma length_u32_bytes [simp]: "length (u32_bytes w) = 4"
  by (simp add: u32_bytes_def)

lemma length_u16_bytes [simp]: "length (u16_bytes w) = 2"
  by (simp add: u16_bytes_def)

lemma recv_exact_prefix:
  "length xs = n \<Longrightarrow> 0 < n \<Longrightarrow> recv_exact (xs @ rest) n = Some (xs, rest)"
  by (simp add: recv_exact_def)

lemma recv_sender_fields:
  assumes "0 < length name" "length name < MAX_USERNAME_LEN"
  shows "recv_sender (u32_bytes ip @ u16_bytes port @ of_nat (length name) # name @ rest)
         = Some ((ip, port, name), rest)"
proof -
  have n: "unat (of_nat (length name) :: byte) = length name"
    using assms(2) by (simp add: unat_of_nat)
  have 1: "recv_exact (u32_bytes ip @ u16_bytes port @ of_nat (length name) # name @ rest) 4
           = Some (u32_bytes ip, u16_bytes port @ of_nat (length name) # name @ rest)"
    by (rule recv_exact_prefix) simp_all
  have 2: "recv_exact (u16_bytes port @ of_nat (length name) # name @ rest) 2
           = Some (u16_bytes port, of_nat (length name) # name @ rest)"
    by (rule recv_exact_prefix) simp_all
  have 3: "recv_exact (of_nat (length name) # name @ rest) (Suc 0)
           = Some ([of_nat (length name)], name @ rest)"
    by (simp add: recv_exact_def)
  have 4: "recv_exact (name @ rest) (length name) = Some (name, rest)"
    using assms(1) by (intro recv_exact_prefix) auto
  show ?thesis
    using assms n by (simp add: recv_sender_def 1 2 3 4 u32_roundtrip u16_roundtrip)
qed

lemma recv_line_message:
  "NL \<notin> set msg \<Longrightarrow> length msg_buf + length msg < BUF_SIZE \<Longrightarrow>
   recv_line (msg @ NL # rest) msg_buf = Some (msg_buf @ msg, rest)"
  by (induction msg arbitrary: msg_buf) auto

lemma strlen_c_string [simp]: "length (c_string u) = strlen u"
  by (simp add: strlen_def)

text \<open>A Join frame built by \<^verbatim>\<open>broadcast_join\<close>, read by the client.\<close>

lemma join_roundtrip:
  assumes "0 < strlen (username c)" "strlen (username c) < MAX_USERNAME_LEN"
  shows "receiver_thread (join_msg c @ rest)
         = Some (Join (sin_addr (addr c)) (sin_port (addr c)) (c_string (username c)), rest)"
proof -
  let ?name = "c_string (username c)"
  have "join_msg c @ rest = [MSG_TYPE_JOIN] @ (u32_bytes (sin_addr (addr c)) @ u16_bytes (sin_port (addr c))
          @ of_nat (length ?name) # ?name @ (NL # rest))"
    using assms(2) by (simp add: join_msg_def frame_header_c_string)
  moreover have "recv_sender (u32_bytes (sin_addr (addr c)) @ u16_bytes (sin_port (addr c))
          @ of_nat (length ?name) # ?name @ (NL # rest))
        = Some ((sin_addr (addr c), sin_port (addr c), ?name), NL # rest)"
    using assms by (intro recv_sender_fields) auto
  ultimately show ?thesis
    by (simp add: receiver_thread_def recv_exact_def)
qed

text \<open>A Disconnect frame built by \<^verbatim>\<open>remove_client\<close>, read by the client.\<close>

lemma disconnect_roundtrip:
  assumes "0 < strlen (username c)" "strlen (username c) < MAX_USERNAME_LEN"
  shows "receiver_thread (disconnect_msg (addr c) (username c) @ rest)
         = Some (Disconnect (sin_addr (addr c)) (sin_port (addr c)) (c_string (username c)), rest)"
proof -
  let ?name = "c_string (username c)"
  have "disconnect_msg (addr c) (username c) @ rest
        = [MSG_TYPE_DISCONNECT] @ (u32_bytes (sin_addr (addr c)) @ u16_bytes (sin_port (addr c))
          @ of_nat (length ?name) # ?name @ (NL # rest))"
    using assms(2) by (simp add: disconnect_msg_def frame_header_c_string)
  moreover have "recv_sender (u32_bytes (sin_addr (addr c)) @ u16_bytes (sin_port (addr c))
          @ of_nat (length ?name) # ?name @ (NL # rest))
        = Some ((sin_addr (addr c), sin_port (addr c), ?name), NL # rest)"
    using assms by (intro recv_sender_fields) auto
  ultimately show ?thesis
    by (simp add: receiver_thread_def recv_exact_def)
qed

text \<open>
  A chat frame relayed by \<^verbatim>\<open>process_message\<close>, read by the client: the client's frame
  \<^verbatim>\<open>[0][msg]\n\<close> lies at the front of the sender's buffer.
\<close>

lemma chat_roundtrip:
  assumes "0 < strlen (username c)" "strlen (username c) < MAX_USERNAME_LEN"
    "buf c = MSG_TYPE_CHAT # msg @ NL # pending" "NL \<notin> set msg" "len c \<le> BUF_SIZE"
  shows "receiver_thread (chat_msg c (length msg + 2) @ rest)
         = Some (Chat (sin_addr (addr c)) (sin_port (addr c)) (c_string (username c)) msg, rest)"
proof -
  let ?name = "c_string (username c)"
  have "chat_msg c (length msg + 2) @ rest
        = [MSG_TYPE_CHAT] @ (u32_bytes (sin_addr (addr c)) @ u16_bytes (sin_port (addr c))
          @ of_nat (length ?name) # ?name @ (msg @ NL # rest))"
    using assms(2,3) by (simp add: chat_msg_def frame_header_c_string)
  moreover have "recv_sender (u32_bytes (sin_addr (addr c)) @ u16_bytes (sin_port (addr c))
          @ of_nat (length ?name) # ?name @ (msg @ NL # rest))
        = Some ((sin_addr (addr c), sin_port (addr c), ?name), msg @ NL # rest)"
    using assms by (intro recv_sender_fields) auto
  moreover have "recv_line (msg @ NL # rest) [] = Some ([] @ msg, rest)"
    using assms(3,4,5) by (intro recv_line_message) auto
  ultimately show ?thesis
    by (simp add: receiver_thread_def recv_exact_def)
qed

text \<open>
  A registration frame built by \<^verbatim>\<open>sender_thread\<close>, read by the server from a fresh
  session: it stores the username, provided the username holds no newline and is not 10
  bytes long.
\<close>

lemma c_string_no_NUL: "0 \<notin> set (c_string u)"
  using set_takeWhileD[of 0 "\<lambda>b. b \<noteq> 0" u] by (auto simp: c_string_def)

lemma username_msg_c_string:
  "strlen uname < 256 \<Longrightarrow>
   username_msg uname = [MSG_TYPE_USERNAME, of_nat (strlen uname)] @ c_string uname @ [NL]"
  by (simp add: username_msg_def Let_def unat_of_nat take_strlen)

lemma register_roundtrip:
  assumes "i < max_clients s" "fd (clients s ! i) \<noteq> -1" "\<not> has_username (clients s ! i)"
    "buf (clients s ! i) = []"
    "0 < strlen uname" "strlen uname < MAX_USERNAME_LEN" "strlen uname \<noteq> 10"
    "NL \<notin> set (c_string uname)"
  shows "\<exists>s'. handle_client_data s i (Data (username_msg uname)) = Inr s'
           \<and> has_username (clients s' ! i)
           \<and> c_string (username (clients s' ! i)) = c_string uname"
proof -
  let ?n = "strlen uname"
  let ?name = "c_string uname"
  let ?body = "[MSG_TYPE_USERNAME, of_nat ?n] @ ?name"
  let ?s0 = "set_buf s i (?body @ [NL])"
  let ?cli0 = "clients ?s0 ! i"
  let ?s1 = "?s0\<lparr>clients := (clients ?s0)[i := ?cli0\<lparr>
            username := take ?n (drop 2 (buf ?cli0)) @ [0] @ drop (?n + 1) (username ?cli0),
            has_username := True\<rparr>]\<rparr>"
  have n: "unat (of_nat ?n :: byte) = ?n"
    using assms(6) by (simp add: unat_of_nat)
  have "(of_nat ?n :: byte) \<noteq> NL"
  proof
    assume "(of_nat ?n :: byte) = NL"
    then have "unat (of_nat ?n :: byte) = unat (NL :: byte)" by simp
    then show False using n assms(7) by simp
  qed
  then have nonl: "NL \<notin> set ?body" using assms(8) by simp
  have fits: "length ?body + 1 \<le> BUF_SIZE" using assms(6) by simp
  have msg: "username_msg uname = ?body @ [NL]"
    using assms(6) by (simp add: username_msg_c_string)
  have single: "handle_client_data s i (Data (?body @ [NL])) =
     (case process_message ?s0 i (length ?body + 1) of
        Inl e \<Rightarrow> Inl e
      | Inr s1 \<Rightarrow> Inr (if fd (clients s1 ! i) = -1 then s1 else set_buf s1 i []))"
    using assms(1,2,4) nonl fits by (rule handle_single_frame)
  have regd: "process_message ?s0 i (length ?body + 1) = Inr (broadcast_join ?s1 i)"
    using assms(1,3,5,6) n by (intro process_message_register) auto
  let ?s' = "set_buf (broadcast_join ?s1 i) i []"
  have "handle_client_data s i (Data (username_msg uname)) = Inr ?s'"
    unfolding msg single regd using assms(1,2) by simp
  moreover have "has_username (clients ?s' ! i)" using assms(1) by simp
  moreover have "c_string (username (clients ?s' ! i)) = ?name"
    using assms(1) c_string_terminated[OF c_string_no_NUL, of uname] by simp
  ultimately show ?thesis by blast
qed

text \<open>
  C3. Decoding the encoding of a frame gives the frame back. This holds for the three
  kinds the server sends (\<open>join_roundtrip\<close>, \<open>disconnect_roundtrip\<close>, \<open>chat_roundtrip\<close>:
  the receiver recovers type, address, port, username and message for every username of
  1 to 31 bytes, the empty message included) and for a registration whose username is not
  10 bytes long (\<open>register_roundtrip\<close>). It fails for a registration with a username of
  10 bytes: the length byte of the frame \<^verbatim>\<open>[3][10][username]\n\<close> is itself the byte
  \<^verbatim>\<open>'\n'\<close>, the server cuts the frame after it, drops the two pieces, and the session
  stays unregistered with nothing broadcast.
\<close>

theorem ten_byte_username_not_registered:
  "strlen alexander1 = 10
   \<and> username_msg alexander1 = [3, 10, 97, 108, 101, 120, 97, 110, 100, 101, 114, 49, 10]
   \<and> fd (clients lobby ! 0) = 4 \<and> \<not> has_username (clients lobby ! 0)
   \<and> handle_client_data lobby 0 (Data (username_msg alexander1)) = Inr lobby"
proof -
  have len: "strlen alexander1 = 10"
    by (simp add: strlen_def c_string_def alexander1_def)
  have msg: "username_msg alexander1 = [3, 10, 97, 108, 101, 120, 97, 110, 100, 101, 114, 49, 10]"
    using len by (simp add: username_msg_c_string c_string_def alexander1_def)
  have guest: "fd (clients lobby ! 0) = 4" "\<not> has_username (clients lobby ! 0)"
    by (simp_all add: lobby_def guest_def empty_slot_def)
  have "handle_client_data lobby 0 (Data [3, 10, 97, 108, 101, 120, 97, 110, 100, 101, 114, 49, 10])
        = Inr lobby"
    by code_simp
  then show ?thesis using len msg guest by simp
qed

section \<open>C10: every operation and the invariant\<close>

lemma fresh_accept: "accept_client fresh_table 4 peer1 0 = \<lparr>clients = [guest, empty_slot], events = []\<rparr>"
  by (simp add: accept_client_def fresh_table_def guest_def empty_slot_def)

lemma long_name_registers:
  "handle_client_data \<lparr>clients = [guest, empty_slot], events = []\<rparr> 0 (Data register31) = Inr long_name"
  by code_simp

lemma long_name_facts:
  "0 < max_clients long_name" "fd (clients long_name ! 0) \<noteq> -1" "buf (clients long_name ! 0) = []"
  "has_username (clients long_name ! 0)" "username (clients long_name ! 0) = replicate 31 65 @ [0]"
  by (simp_all add: long_name_def guest_def empty_slot_def)

lemma chat_msg_length:
  assumes "strlen (username c) < 256" "1 < msg_len" "msg_len \<le> len c"
  shows "length (chat_msg c msg_len) = 8 + strlen (username c) + (msg_len - 1)"
proof -
  have "length (frame_header MSG_TYPE_CHAT (addr c) (username c)) = 8 + strlen (username c)"
    using assms(1) by (simp add: frame_header_c_string)
  then show ?thesis using assms(2,3) by (simp add: chat_msg_def)
qed

lemma process_message_overrun:
  assumes "has_username (clients s ! i)" "buf (clients s ! i) ! 0 = MSG_TYPE_CHAT"
    "BUF_SIZE + 8 < length (chat_msg (clients s ! i) msg_len)"
  shows "process_message s i msg_len = Inl RelayBufferOverrun"
  using assms by (simp add: process_message_def Let_def)

lemma strlen_31: "strlen (replicate 31 65 @ [0]) = 31"
proof -
  have "c_string (replicate 31 65 @ 0 # []) = replicate 31 65"
    by (rule c_string_terminated) simp
  then show ?thesis by (simp add: strlen_def)
qed

lemma long_name_chat:
  assumes "length filler = n" "NL \<notin> set filler" "n + 2 \<le> BUF_SIZE"
  shows "handle_client_data long_name 0 (Data (MSG_TYPE_CHAT # filler @ [NL])) =
     (if 993 \<le> n then Inl RelayBufferOverrun
      else Inr (long_name\<lparr>events := events long_name
                 @ send_all (clients long_name)
                     (chat_msg ((clients long_name ! 0)\<lparr>buf := MSG_TYPE_CHAT # filler @ [NL]\<rparr>) (n + 2))\<rparr>))"
proof -
  let ?body = "MSG_TYPE_CHAT # filler"
  let ?s = "set_buf long_name 0 (?body @ [NL])"
  let ?cli = "(clients long_name ! 0)\<lparr>buf := MSG_TYPE_CHAT # filler @ [NL]\<rparr>"
  have cli: "clients ?s ! 0 = ?cli" using long_name_facts(1) by simp
  have f: "has_username ?cli" "buf ?cli ! 0 = MSG_TYPE_CHAT" "strlen (username ?cli) = 31"
    "len ?cli = n + 2"
    using long_name_facts assms(1) by (simp_all add: strlen_31)
  have l: "length (chat_msg ?cli (n + 2)) = 40 + n"
    using chat_msg_length[of ?cli "n + 2"] f by simp
  have single: "handle_client_data long_name 0 (Data (?body @ [NL])) =
     (case process_message ?s 0 (length ?body + 1) of
        Inl e \<Rightarrow> Inl e
      | Inr s1 \<Rightarrow> Inr (if fd (clients s1 ! 0) = -1 then s1 else set_buf s1 0 []))"
    using long_name_facts assms by (intro handle_single_frame) auto
  have m: "length ?body + 1 = n + 2" using assms(1) by simp
  show ?thesis
  proof (cases "993 \<le> n")
    case True
    then have "process_message ?s 0 (n + 2) = Inl RelayBufferOverrun"
      using f l long_name_facts(1) by (intro process_message_overrun) simp_all
    then show ?thesis using True single m by simp
  next
    case False
    then have "process_message ?s 0 (n + 2) =
       Inr (?s\<lparr>events := events ?s @ send_all (clients ?s) (chat_msg (clients ?s ! 0) (n + 2))\<rparr>)"
      using f l long_name_facts(1) by (intro process_message_chat) simp_all
    moreover have "send_all (clients ?s) msg = send_all (clients long_name) msg" for msg
      by (rule send_all_fd_cong) (simp add: map_fd_update)
    moreover have "(clients long_name)[0 := (clients long_name ! 0)\<lparr>buf := []\<rparr>] = clients long_name"
      by (simp add: long_name_def guest_def empty_slot_def)
    ultimately show ?thesis
      using False single m long_name_facts(1,2) by simp
  qed
qed

lemma overrun_states_ok:
  "table_ok fresh_table \<and> table_ok (accept_client fresh_table 4 peer1 0) \<and> table_ok long_name"
  by (simp add: fresh_accept)
     (simp add: table_ok_def slot_ok_def fresh_table_def long_name_def guest_def empty_slot_def)

text \<open>
  C10. The claim is that every server operation keeps the invariant of the table. It
  does whenever the operation runs to its end (\<open>table_ok_preserved\<close>), but processing a
  frame does not always do so. On the table \<^verbatim>\<open>main\<close> sets up, a connection is accepted on
  descriptor 4 and registers a username of 31 bytes; the table satisfies the invariant
  (no buffered bytes, the empty slot without username). The session then sends a chat
  frame of 995 bytes: \<^verbatim>\<open>process_message\<close> has to write 8 + 31 + 994 = 1033 bytes into
  \<^verbatim>\<open>broadcast_msg[BUF_SIZE + 8]\<close>, one more than it holds, and the operation ends in
  \<open>RelayBufferOverrun\<close> instead of a table. A frame of 994 bytes still fits and is relayed.
\<close>

theorem relay_overrun_from_fresh_table:
  "accept_client fresh_table 4 peer1 0 = \<lparr>clients = [guest, empty_slot], events = []\<rparr>
   \<and> handle_client_data (accept_client fresh_table 4 peer1 0) 0 (Data register31) = Inr long_name
   \<and> map fd (clients long_name) = [4, -1]
   \<and> map len (clients long_name) = [0, 0]
   \<and> map has_username (clients long_name) = [True, False]
   \<and> length chat995 = 995
   \<and> handle_client_data long_name 0 (Data chat995) = Inl RelayBufferOverrun
   \<and> reads (accept_client fresh_table 4 peer1 0) 0 [register31, chat995] = Inl RelayBufferOverrun
   \<and> length chat994 = 994
   \<and> handle_client_data long_name 0 (Data chat994)
       = Inr (long_name\<lparr>events := events long_name
                @ [Send 4 (chat_msg ((clients long_name ! 0)\<lparr>buf := chat994\<rparr>) 994)]\<rparr>)"
proof -
  have reg: "handle_client_data (accept_client fresh_table 4 peer1 0) 0 (Data register31) = Inr long_name"
    unfolding fresh_accept by (rule long_name_registers)
  have slots: "map fd (clients long_name) = [4, -1]" "map len (clients long_name) = [0, 0]"
    "map has_username (clients long_name) = [True, False]"
    by (simp_all add: long_name_def guest_def empty_slot_def)
  have over: "handle_client_data long_name 0 (Data chat995) = Inl RelayBufferOverrun"
    using long_name_chat[of "replicate 993 66" 993] by (simp add: chat995_def)
  have two: "reads (accept_client fresh_table 4 peer1 0) 0 [register31, chat995] = Inl RelayBufferOverrun"
    using reg over by simp
  have sends: "send_all (clients long_name) msg = [Send 4 msg]" for msg
    by (simp add: long_name_def guest_def empty_slot_def)
  have fits: "handle_client_data long_name 0 (Data chat994)
       = Inr (long_name\<lparr>events := events long_name
                @ [Send 4 (chat_msg ((clients long_name ! 0)\<lparr>buf := chat994\<rparr>) 994)]\<rparr>)"
    using long_name_chat[of "replicate 992 66" 992] by (simp add: chat994_def sends)
  show ?thesis
    using fresh_accept reg slots over two fits by (simp add: chat995_def chat994_def)
qed

end
